theory Spec2Isabelle
  imports Complex_Main
begin

section \<open>Shooting-range targets: the pool of target entities and the moving-target system\<close>

text \<open>
  The development follows the module \<open>TargetObject\<close> of the source file
  \<open>src/index.ts\<close>, whose lines the texts below cite: the pool \<open>pooledObjects\<close> with
  \<open>Create\<close>, \<open>Enable\<close>, \<open>Disable\<close>, \<open>DisableAll\<close>, \<open>Destroy\<close>, \<open>DestroyAll\<close>, and the
  system \<open>MovingTimer\<close> that the engine calls once per frame.
\<close>

subsection \<open>Numbers\<close>

text \<open>
  A TypeScript \<open>number\<close> is an IEEE 754 double. It is modelled by a real extended with the
  two infinities and NaN; the doubles are the values that satisfy \<open>is_double\<close> below. Every
  arithmetic operation computes the exact real result and rounds it to the nearest double,
  a tie going to the double with the even significand (\<open>rnd\<close>): a result of magnitude
  \<open>2^1024\<close> or more after rounding overflows to an infinity, and the special values follow
  the IEEE rules: a comparison with NaN is false, \<open>0/0\<close>, \<open>\<infinity> - \<infinity>\<close> and \<open>0 * \<infinity>\<close> are NaN, a
  non-zero finite number divided by zero is an infinity. A decimal literal \<open>d\<close> of the
  source is the double \<open>rnd d\<close>.

  The one thing that is not represented is the sign of a zero. The program never looks at
  it: it compares numbers, takes absolute values, adds, subtracts and multiplies them, and
  its only divisor is the result of \<open>Math.sqrt\<close>, which is never the negative zero.
\<close>

datatype number = Fin real | PInf | NInf | NaN

text \<open>\<open>pow2 k\<close> is \<open>2^k\<close> for an integer \<open>k\<close>, and \<open>round_even\<close> rounds a real to the nearest
  integer, to the even one of the two when it is half-way.\<close>

definition pow2 :: "int \<Rightarrow> real" where
  "pow2 k = (if 0 \<le> k then 2 ^ nat k else 1 / 2 ^ nat (- k))"

definition round_even :: "real \<Rightarrow> int" where
  "round_even q =
     (if q - of_int \<lfloor>q\<rfloor> < 1 / 2 then \<lfloor>q\<rfloor>
      else if 1 / 2 < q - of_int \<lfloor>q\<rfloor> then \<lfloor>q\<rfloor> + 1
      else if even \<lfloor>q\<rfloor> then \<lfloor>q\<rfloor> else \<lfloor>q\<rfloor> + 1)"

text \<open>The exponent of the binade of a real, \<open>\<lfloor>log2 |r|\<rfloor>\<close>, not below the exponent -1022 of
  the subnormal doubles; the spacing of the doubles of that binade (a significand has 53
  bits); the significand of the nearest double, in units of that spacing; and the
  rounding itself.\<close>

definition exponent :: "real \<Rightarrow> int" where
  "exponent r = max \<lfloor>log 2 \<bar>r\<bar>\<rfloor> (- 1022)"

definition ulp :: "real \<Rightarrow> real" where
  "ulp r = pow2 (exponent r - 52)"

definition mant :: "real \<Rightarrow> int" where
  "mant r = round_even (r / ulp r)"

definition rnd :: "real \<Rightarrow> number" where
  "rnd r =
     (if r = 0 then Fin 0
      else if pow2 1024 \<le> \<bar>of_int (mant r) * ulp r\<bar>
           then (if 0 < r then PInf else NInf)
           else Fin (of_int (mant r) * ulp r))"

instantiation number :: "{plus, minus, times, inverse, ord}"
begin

fun plus_number :: "number \<Rightarrow> number \<Rightarrow> number" where
  "plus_number NaN b = NaN"
| "plus_number a NaN = NaN"
| "plus_number (Fin a) (Fin b) = rnd (a + b)"
| "plus_number PInf NInf = NaN"
| "plus_number NInf PInf = NaN"
| "plus_number PInf b = PInf"
| "plus_number a PInf = PInf"
| "plus_number NInf b = NInf"
| "plus_number a NInf = NInf"

fun minus_number :: "number \<Rightarrow> number \<Rightarrow> number" where
  "minus_number NaN b = NaN"
| "minus_number a NaN = NaN"
| "minus_number (Fin a) (Fin b) = rnd (a - b)"
| "minus_number PInf PInf = NaN"
| "minus_number NInf NInf = NaN"
| "minus_number PInf b = PInf"
| "minus_number a PInf = NInf"
| "minus_number NInf b = NInf"
| "minus_number a NInf = PInf"

fun times_number :: "number \<Rightarrow> number \<Rightarrow> number" where
  "times_number NaN b = NaN"
| "times_number a NaN = NaN"
| "times_number (Fin a) (Fin b) = rnd (a * b)"
| "times_number (Fin a) PInf = (if a = 0 then NaN else if 0 < a then PInf else NInf)"
| "times_number (Fin a) NInf = (if a = 0 then NaN else if 0 < a then NInf else PInf)"
| "times_number PInf (Fin b) = (if b = 0 then NaN else if 0 < b then PInf else NInf)"
| "times_number NInf (Fin b) = (if b = 0 then NaN else if 0 < b then NInf else PInf)"
| "times_number PInf PInf = PInf"
| "times_number PInf NInf = NInf"
| "times_number NInf PInf = NInf"
| "times_number NInf NInf = PInf"

fun divide_number :: "number \<Rightarrow> number \<Rightarrow> number" where
  "divide_number NaN b = NaN"
| "divide_number a NaN = NaN"
| "divide_number (Fin a) (Fin b) =
     (if b \<noteq> 0 then rnd (a / b)
      else if a = 0 then NaN
      else if 0 < a then PInf else NInf)"
| "divide_number (Fin a) PInf = Fin 0"
| "divide_number (Fin a) NInf = Fin 0"
| "divide_number PInf (Fin b) = (if 0 \<le> b then PInf else NInf)"
| "divide_number NInf (Fin b) = (if 0 \<le> b then NInf else PInf)"
| "divide_number PInf PInf = NaN"
| "divide_number PInf NInf = NaN"
| "divide_number NInf PInf = NaN"
| "divide_number NInf NInf = NaN"

definition inverse_number :: "number \<Rightarrow> number" where
  "inverse_number a = Fin 1 div a"

fun less_number :: "number \<Rightarrow> number \<Rightarrow> bool" where
  "less_number NaN b = False"
| "less_number a NaN = False"
| "less_number (Fin a) (Fin b) = (a < b)"
| "less_number (Fin a) PInf = True"
| "less_number (Fin a) NInf = False"
| "less_number PInf b = False"
| "less_number NInf NInf = False"
| "less_number NInf b = True"

definition less_eq_number :: "number \<Rightarrow> number \<Rightarrow> bool" where
  "less_eq_number a b = (a < b \<or> (a = b \<and> a \<noteq> NaN))"

instance ..

end

text \<open>\<open>Math.abs\<close> is exact; \<open>Math.sqrt\<close> is the rounded square root.\<close>

fun Math_abs :: "number \<Rightarrow> number" where
  "Math_abs (Fin a) = Fin \<bar>a\<bar>"
| "Math_abs PInf = PInf"
| "Math_abs NInf = PInf"
| "Math_abs NaN = NaN"

fun Math_sqrt :: "number \<Rightarrow> number" where
  "Math_sqrt (Fin a) = (if a < 0 then NaN else rnd (sqrt a))"
| "Math_sqrt PInf = PInf"
| "Math_sqrt NInf = NaN"
| "Math_sqrt NaN = NaN"

text \<open>The global \<open>isFinite\<close>: neither an infinity nor NaN.\<close>

fun isFinite :: "number \<Rightarrow> bool" where
  "isFinite (Fin a) = True"
| "isFinite PInf = False"
| "isFinite NInf = False"
| "isFinite NaN = False"

text \<open>The values that are doubles: the infinities, NaN, and the reals that rounding leaves
  as they are.\<close>

fun is_double :: "number \<Rightarrow> bool" where
  "is_double (Fin a) = (rnd a = Fin a)"
| "is_double PInf = True"
| "is_double NInf = True"
| "is_double NaN = True"

subsection \<open>Data\<close>

type_synonym Entity = nat

record Vector3 =
  x :: number
  y :: number
  z :: number

text \<open>\<open>enum TARGET_TYPE { STATIC = 0, MOVING = 1 }\<close>; the value is the index of the bucket.\<close>

datatype TARGET_TYPE = STATIC | MOVING

fun TARGET_TYPE_value :: "TARGET_TYPE \<Rightarrow> nat" where
  "TARGET_TYPE_value STATIC = 0"
| "TARGET_TYPE_value MOVING = 1"

record TargetDataObject =
  type :: TARGET_TYPE
  pos :: Vector3

record TargetStaticComponentData =
  isActive :: bool

text \<open>\<open>indexCur\<close> is a number of the schema that the program only increments and resets:
  it is an integer here, and an index outside the array reads \<open>undefined\<close>.\<close>

record TargetMovingComponentData =
  isActive :: bool
  isProcessing :: bool
  speed :: number
  indexCur :: int
  waypoints :: "Vector3 list"
  normal :: Vector3

text \<open>The parts of the engine's own components that the module touches. The rotation
  of a transform is never read or written.\<close>

record TransformData =
  position :: Vector3
  scale :: Vector3

record GltfContainerData =
  src :: string
  visibleMeshesCollisionMask :: "nat option"
  invisibleMeshesCollisionMask :: "nat option"

text \<open>
  The store: the engine's component tables, each a map from entity to the component's
  value, the engine's entity counter, and the module variable \<open>pooledObjects\<close>.
\<close>

record Scene =
  nextEntity :: Entity
  Transform :: "Entity \<rightharpoonup> TransformData"
  GltfContainer :: "Entity \<rightharpoonup> GltfContainerData"
  TargetStaticComponent :: "Entity \<rightharpoonup> TargetStaticComponentData"
  TargetMovingComponent :: "Entity \<rightharpoonup> TargetMovingComponentData"
  pooledObjects :: "Entity list list"


subsection \<open>Exceptions\<close>

text \<open>
  A call either returns or throws. The engine throws when a component is read or
  written on an entity that does not carry it, and when a component is created on an
  entity that already carries it; reading a property of \<open>undefined\<close> is a TypeError.
  A thrown exception ends the call: for the operations of the pool the store after an
  exception is not represented.
\<close>

datatype error = ComponentNotFound | ComponentAlreadyExists | TypeError

definition then_do :: "error + 'a \<Rightarrow> ('a \<Rightarrow> error + 'b) \<Rightarrow> error + 'b" where
  "then_do m f = (case m of Inl err \<Rightarrow> Inl err | Inr a \<Rightarrow> f a)"

subsection \<open>The engine\<close>

text \<open>
  Modelled from the spec: the engine of the host (\<open>@dcl/sdk/ecs\<close>) is outside the
  repository. \<open>engine.addEntity\<close> returns a handle that no entity has had before (a
  counter), \<open>engine.removeEntity\<close> removes the entity with all its components,
  \<open>engine.getEntitiesWith\<close> enumerates the entities that carry a component, in the order
  of their handles, \<open>get\<close> and \<open>getMutable\<close> throw on an entity without the component and
  \<open>create\<close> throws on an entity that has it.
\<close>

definition engine_addEntity :: "Scene \<Rightarrow> Entity \<times> Scene" where
  "engine_addEntity s = (nextEntity s, s\<lparr>nextEntity := Suc (nextEntity s)\<rparr>)"

definition engine_removeEntity :: "Entity \<Rightarrow> Scene \<Rightarrow> Scene" where
  "engine_removeEntity entity s =
     s\<lparr>Transform := (Transform s)(entity := None),
       GltfContainer := (GltfContainer s)(entity := None),
       TargetStaticComponent := (TargetStaticComponent s)(entity := None),
       TargetMovingComponent := (TargetMovingComponent s)(entity := None)\<rparr>"

definition engine_getEntitiesWith :: "(Entity \<rightharpoonup> 'c) \<Rightarrow> Scene \<Rightarrow> Entity list" where
  "engine_getEntitiesWith table s = filter (\<lambda>e. table e \<noteq> None) [0..<nextEntity s]"

definition component_get :: "(Entity \<rightharpoonup> 'c) \<Rightarrow> Entity \<Rightarrow> error + 'c" where
  "component_get table entity =
     (case table entity of None \<Rightarrow> Inl ComponentNotFound | Some c \<Rightarrow> Inr c)"

definition component_create :: "(Entity \<rightharpoonup> 'c) \<Rightarrow> Entity \<Rightarrow> 'c \<Rightarrow> error + (Entity \<rightharpoonup> 'c)" where
  "component_create table entity c =
     (case table entity of None \<Rightarrow> Inr (table(entity \<mapsto> c)) | Some _ \<Rightarrow> Inl ComponentAlreadyExists)"

text \<open>
  Modelled from the spec: the values that the schemas of the host give to the fields a
  \<open>create\<close> call leaves out (\<open>Schemas.Boolean\<close>: false, \<open>Schemas.Number\<close>: 0,
  \<open>Schemas.Array\<close>: the empty array, \<open>Schemas.Vector3\<close>: the zero vector; the scale of a
  transform: one on every axis), and the value 1 of \<open>ColliderLayer.CL_POINTER\<close>.
\<close>

definition Vector3_Zero :: Vector3 where
  "Vector3_Zero = \<lparr>x = Fin 0, y = Fin 0, z = Fin 0\<rparr>"

definition Vector3_One :: Vector3 where
  "Vector3_One = \<lparr>x = Fin 1, y = Fin 1, z = Fin 1\<rparr>"

definition TargetMovingComponent_schema_default :: TargetMovingComponentData where
  "TargetMovingComponent_schema_default =
     \<lparr>isActive = False, isProcessing = False, speed = Fin 0, indexCur = 0,
      waypoints = [], normal = Vector3_Zero\<rparr>"

definition CL_POINTER :: nat where
  "CL_POINTER = 1"

definition MODEL_TARGET_OBJECT :: string where
  "MODEL_TARGET_OBJECT = ''models/shooting-range/shooting-target.glb''"

text \<open>The module when it is loaded: no entity, \<open>pooledObjects = [[],[]]\<close>.\<close>

definition initial :: Scene where
  "initial =
     \<lparr>nextEntity = 0, Transform = Map.empty, GltfContainer = Map.empty,
      TargetStaticComponent = Map.empty, TargetMovingComponent = Map.empty,
      pooledObjects = [[], []]\<rparr>"

subsection \<open>The moving-target system\<close>

text \<open>The system \<open>targetProcessingMoving\<close>, the function \<open>MovingTimer\<close> of lines 115-151,
  in the pieces of its loop body.\<close>

text \<open>\<open>component.waypoints[component.indexCur]\<close>, of which a property is read next.\<close>

definition waypoint_at :: "TargetMovingComponentData \<Rightarrow> error + Vector3" where
  "waypoint_at component =
     (if 0 \<le> indexCur component \<and> indexCur component < int (length (waypoints component))
      then Inr (waypoints component ! nat (indexCur component))
      else Inl TypeError)"

text \<open>The check for destination (lines 124-128), of the position \<open>p\<close> against the
  waypoint \<open>w\<close>: the subtractions are those of doubles, and the literals \<open>0.05\<close> and \<open>0.02\<close>
  are the doubles nearest to these decimals.\<close>

definition arrived :: "Vector3 \<Rightarrow> Vector3 \<Rightarrow> bool" where
  "arrived p w =
     (Math_abs (x p - x w) < rnd 0.05 \<and>
      Math_abs (y p - y w) < rnd 0.05 \<and>
      Math_abs (z p - z w) < rnd 0.02)"

text \<open>The branch taken on arrival (lines 129-144): the next waypoint, and the new
  direction, the difference to the waypoint divided by its length.\<close>

definition retarget :: "TargetMovingComponentData \<Rightarrow> Vector3 \<Rightarrow> error + TargetMovingComponentData" where
  "retarget component p =
     (let c1 = component\<lparr>indexCur := indexCur component + 1\<rparr>;
          c2 = (if int (length (waypoints c1)) \<le> indexCur c1 then c1\<lparr>indexCur := 0\<rparr> else c1)
      in then_do (waypoint_at c2) (\<lambda>w.
           let direction = \<lparr>x = x w - x p, y = y w - y p, z = z w - z p\<rparr>;
               length_d = Math_sqrt (x direction * x direction + y direction * y direction
                                      + z direction * z direction)
           in Inr (c2\<lparr>normal := \<lparr>x = x direction / length_d,
                                 y = y direction / length_d,
                                 z = z direction / length_d\<rparr>\<rparr>)))"

text \<open>The move towards the target location (lines 146-149), by the cached direction:
  \<open>dt * speed\<close> is rounded, then its product with the direction, then the sum.\<close>

definition translate :: "number \<Rightarrow> TargetMovingComponentData \<Rightarrow> Vector3 \<Rightarrow> Vector3" where
  "translate dt component p =
     \<lparr>x = x p + dt * speed component * x (normal component),
      y = y p + dt * speed component * y (normal component),
      z = z p + dt * speed component * z (normal component)\<rparr>"

text \<open>The body of the loop on one entity's component and position, once the entity is
  known to be active and processing.\<close>

definition MovingTimer_move ::
  "number \<Rightarrow> TargetMovingComponentData \<Rightarrow> Vector3 \<Rightarrow> error + TargetMovingComponentData \<times> Vector3" where
  "MovingTimer_move dt component p =
     then_do (waypoint_at component) (\<lambda>w.
     then_do (if arrived p w then retarget component p else Inr component) (\<lambda>c'.
       Inr (c', translate dt c' p)))"

definition MovingTimer_entity :: "number \<Rightarrow> Entity \<Rightarrow> Scene \<Rightarrow> error + Scene" where
  "MovingTimer_entity dt entity s =
     then_do (component_get (TargetMovingComponent s) entity) (\<lambda>component.
       if \<not> isActive component \<or> \<not> isProcessing component then Inr s
       else
         then_do (component_get (Transform s) entity) (\<lambda>tr.
         then_do (MovingTimer_move dt component (position tr)) (\<lambda>(c', p').
           Inr (s\<lparr>TargetMovingComponent := (TargetMovingComponent s)(entity \<mapsto> c'),
                  Transform := (Transform s)(entity \<mapsto> tr\<lparr>position := p'\<rparr>)\<rparr>))))"

text \<open>The loop over the entities: an exception ends the tick and leaves the entities
  already processed as they are.\<close>

fun MovingTimer_loop :: "number \<Rightarrow> Entity list \<Rightarrow> Scene \<Rightarrow> error option \<times> Scene" where
  "MovingTimer_loop dt [] s = (None, s)"
| "MovingTimer_loop dt (entity # rest) s =
     (case MovingTimer_entity dt entity s of
        Inl err \<Rightarrow> (Some err, s)
      | Inr s' \<Rightarrow> MovingTimer_loop dt rest s')"

definition MovingTimer :: "number \<Rightarrow> Scene \<Rightarrow> error option \<times> Scene" where
  "MovingTimer dt s = MovingTimer_loop dt (engine_getEntitiesWith (TargetMovingComponent s) s) s"

text \<open>A run of frames, one elapsed time per frame.\<close>

fun run_ticks :: "number list \<Rightarrow> Scene \<Rightarrow> Scene" where
  "run_ticks [] s = s"
| "run_ticks (dt # dts) s = run_ticks dts (snd (MovingTimer dt s))"

subsection \<open>The pool\<close>

text \<open>\<open>Enable\<close> (lines 209-231): the two writes to the transform go through the same
  \<open>getMutable\<close>, which throws on the first of them or on neither.\<close>

definition Enable :: "Entity \<Rightarrow> TargetDataObject \<Rightarrow> Scene \<Rightarrow> error + Entity \<times> Scene" where
  "Enable entity targetData s =
     then_do
       (case type targetData of
          STATIC \<Rightarrow>
            then_do (component_get (TargetStaticComponent s) entity) (\<lambda>c.
              Inr (s\<lparr>TargetStaticComponent := (TargetStaticComponent s)
                       (entity \<mapsto> c\<lparr>TargetStaticComponentData.isActive := True\<rparr>)\<rparr>))
        | MOVING \<Rightarrow>
            then_do (component_get (TargetMovingComponent s) entity) (\<lambda>c.
              Inr (s\<lparr>TargetMovingComponent := (TargetMovingComponent s)
                       (entity \<mapsto> c\<lparr>isActive := True\<rparr>)\<rparr>)))
       (\<lambda>s1.
         then_do (component_get (Transform s1) entity) (\<lambda>tr.
           Inr (entity,
                s1\<lparr>Transform := (Transform s1)
                     (entity \<mapsto> tr\<lparr>position := \<lparr>x = x (pos targetData), y = y (pos targetData),
                                                 z = z (pos targetData)\<rparr>,
                                   scale := \<lparr>x = Fin 1, y = Fin 1, z = Fin 1\<rparr>\<rparr>)\<rparr>)))"

text \<open>\<open>Disable\<close> (lines 247-262) takes the type as a number; the \<open>switch\<close> has no
  default case.\<close>

definition Disable :: "Entity \<Rightarrow> nat \<Rightarrow> Scene \<Rightarrow> error + Scene" where
  "Disable entity ttype s =
     then_do
       (if ttype = TARGET_TYPE_value STATIC then
          then_do (component_get (TargetStaticComponent s) entity) (\<lambda>c.
            Inr (s\<lparr>TargetStaticComponent := (TargetStaticComponent s)
                     (entity \<mapsto> c\<lparr>TargetStaticComponentData.isActive := False\<rparr>)\<rparr>))
        else if ttype = TARGET_TYPE_value MOVING then
          then_do (component_get (TargetMovingComponent s) entity) (\<lambda>c.
            Inr (s\<lparr>TargetMovingComponent := (TargetMovingComponent s)
                     (entity \<mapsto> c\<lparr>isActive := False, isProcessing := False\<rparr>)\<rparr>))
        else Inr s)
       (\<lambda>s1.
         then_do (component_get (Transform s1) entity) (\<lambda>tr.
           Inr (s1\<lparr>Transform := (Transform s1)
                     (entity \<mapsto> tr\<lparr>scale := \<lparr>x = Fin 0, y = Fin 0, z = Fin 0\<rparr>\<rparr>)\<rparr>)))"

text \<open>\<open>DisableAll\<close> (lines 234-245): the inner loop over the bucket \<open>i\<close>, the outer loop
  over the buckets.\<close>

fun DisableAll_bucket :: "nat \<Rightarrow> Entity list \<Rightarrow> Scene \<Rightarrow> error + Scene" where
  "DisableAll_bucket i [] s = Inr s"
| "DisableAll_bucket i (entity # rest) s =
     then_do (Disable entity i s) (\<lambda>s'. DisableAll_bucket i rest s')"

fun DisableAll_buckets :: "nat \<Rightarrow> Entity list list \<Rightarrow> Scene \<Rightarrow> error + Scene" where
  "DisableAll_buckets i [] s = Inr s"
| "DisableAll_buckets i (bucket # rest) s =
     then_do (DisableAll_bucket i bucket s) (\<lambda>s'. DisableAll_buckets (Suc i) rest s')"

definition DisableAll :: "Scene \<Rightarrow> error + Scene" where
  "DisableAll s = DisableAll_buckets 0 (pooledObjects s) s"

text \<open>\<open>Destroy\<close> (lines 279-281) removes the entity from the engine and nothing else.\<close>

definition Destroy :: "Entity \<Rightarrow> Scene \<Rightarrow> Scene" where
  "Destroy entity s = engine_removeEntity entity s"

text \<open>\<open>DestroyAll\<close> (lines 265-277): the \<open>for\<close> over the buckets and the \<open>while\<close> that
  pops the last handle of bucket \<open>i\<close> and destroys it, as one loop on the index and the
  store.\<close>

function DestroyAll_loop :: "nat \<Rightarrow> Scene \<Rightarrow> Scene" where
  "DestroyAll_loop i s =
     (if i < length (pooledObjects s) then
        (if 0 < length (pooledObjects s ! i) then
           DestroyAll_loop i
             (Destroy (last (pooledObjects s ! i))
                (s\<lparr>pooledObjects := (pooledObjects s)[i := butlast (pooledObjects s ! i)]\<rparr>))
         else DestroyAll_loop (i + 1) s)
      else s)"
  by pat_completeness auto
termination
  by (relation "measures [\<lambda>(i, s). length (pooledObjects s) - i,
                          \<lambda>(i, s). length (pooledObjects s ! i)]")
     (auto simp: Destroy_def engine_removeEntity_def)

declare DestroyAll_loop.simps [simp del]

definition DestroyAll :: "Scene \<Rightarrow> Scene" where
  "DestroyAll s = DestroyAll_loop 0 s"

text \<open>\<open>Create\<close> (lines 156-206): the loop that looks for an inactive target of the type
  in the bucket and enables the first one (\<open>Create_reuse\<close>, lines 161-175), then the
  creation of a new entity (\<open>Create_new\<close>, lines 177-205).\<close>

fun Create_reuse :: "TargetDataObject \<Rightarrow> Entity list \<Rightarrow> Scene \<Rightarrow> error + (Entity \<times> Scene) option" where
  "Create_reuse targetData [] s = Inr None"
| "Create_reuse targetData (entity # rest) s =
     then_do
       (case type targetData of
          STATIC \<Rightarrow>
            then_do (component_get (TargetStaticComponent s) entity) (\<lambda>c.
              if \<not> TargetStaticComponentData.isActive c
              then then_do (Enable entity targetData s) (\<lambda>r. Inr (Some r))
              else Inr None)
        | MOVING \<Rightarrow>
            then_do (component_get (TargetMovingComponent s) entity) (\<lambda>c.
              if \<not> isActive c
              then then_do (Enable entity targetData s) (\<lambda>r. Inr (Some r))
              else Inr None))
       (\<lambda>reused. case reused of
           Some r \<Rightarrow> Inr (Some r)
         | None \<Rightarrow> Create_reuse targetData rest s)"

definition Create_new :: "TargetDataObject \<Rightarrow> Scene \<Rightarrow> error + Entity \<times> Scene" where
  "Create_new targetData s =
     (let (entity, s1) = engine_addEntity s in
      then_do (component_create (Transform s1) entity
                 \<lparr>position = \<lparr>x = x (pos targetData), y = y (pos targetData),
                               z = z (pos targetData)\<rparr>,
                  scale = Vector3_One\<rparr>) (\<lambda>transforms.
      then_do (component_create (GltfContainer s1) entity
                 \<lparr>src = MODEL_TARGET_OBJECT,
                  visibleMeshesCollisionMask = Some CL_POINTER,
                  invisibleMeshesCollisionMask = None\<rparr>) (\<lambda>gltfs.
      let s2 = s1\<lparr>Transform := transforms, GltfContainer := gltfs\<rparr> in
      then_do
        (case type targetData of
           STATIC \<Rightarrow>
             then_do (component_create (TargetStaticComponent s2) entity
                        \<lparr>TargetStaticComponentData.isActive = True\<rparr>) (\<lambda>statics.
               Inr (s2\<lparr>TargetStaticComponent := statics\<rparr>))
         | MOVING \<Rightarrow>
             then_do (component_create (TargetMovingComponent s2) entity
                        (TargetMovingComponent_schema_default
                           \<lparr>isActive := True, isProcessing := False\<rparr>)) (\<lambda>movings.
               Inr (s2\<lparr>TargetMovingComponent := movings\<rparr>)))
        (\<lambda>s3.
          let t = TARGET_TYPE_value (type targetData) in
          if t < length (pooledObjects s3)
          then Inr (entity, s3\<lparr>pooledObjects := (pooledObjects s3)[t := pooledObjects s3 ! t @ [entity]]\<rparr>)
          else Inl TypeError))))"

definition Create :: "TargetDataObject \<Rightarrow> Scene \<Rightarrow> error + Entity \<times> Scene" where
  "Create targetData s =
     (let t = TARGET_TYPE_value (type targetData) in
      if t < length (pooledObjects s) then
        then_do (Create_reuse targetData (pooledObjects s ! t) s) (\<lambda>reused.
          case reused of
            Some r \<Rightarrow> Inr r
          | None \<Rightarrow> Create_new targetData s)
      else Inl TypeError)"

subsection \<open>Vocabulary of the properties\<close>

text \<open>
  What the properties say about a store: the bucket of a type, whether an entity carries
  the state of a type and is active, when the pool and the engine are consistent
  (every handle of a bucket carries the state of the bucket's type and a transform, the
  pool has its two buckets, no component sits on a handle the engine has not given out),
  and when every active and processing target has a transform and a current waypoint.
\<close>


definition same_elsewhere :: "Entity \<Rightarrow> Scene \<Rightarrow> Scene \<Rightarrow> bool" where
  "same_elsewhere e s s' \<longleftrightarrow>
     nextEntity s' = nextEntity s \<and> pooledObjects s' = pooledObjects s \<and>
     GltfContainer s' = GltfContainer s \<and>
     (\<forall>e'. e' \<noteq> e \<longrightarrow>
        Transform s' e' = Transform s e' \<and>
        TargetStaticComponent s' e' = TargetStaticComponent s e' \<and>
        TargetMovingComponent s' e' = TargetMovingComponent s e') \<and>
     (Transform s' e = None \<longleftrightarrow> Transform s e = None) \<and>
     (TargetStaticComponent s' e = None \<longleftrightarrow> TargetStaticComponent s e = None) \<and>
     (TargetMovingComponent s' e = None \<longleftrightarrow> TargetMovingComponent s e = None)"

definition targets_ready :: "Scene \<Rightarrow> bool" where
  "targets_ready s \<longleftrightarrow>
     (\<forall>e c. TargetMovingComponent s e = Some c \<and> isActive c \<and> isProcessing c \<longrightarrow>
        Transform s e \<noteq> None \<and> 0 \<le> indexCur c \<and> indexCur c < int (length (waypoints c)))"

definition engine_ok :: "Scene \<Rightarrow> bool" where
  "engine_ok s \<longleftrightarrow>
     (\<forall>e. nextEntity s \<le> e \<longrightarrow>
        Transform s e = None \<and> GltfContainer s e = None \<and>
        TargetStaticComponent s e = None \<and> TargetMovingComponent s e = None)"

definition bucket :: "TARGET_TYPE \<Rightarrow> Scene \<Rightarrow> Entity list" where
  "bucket k s = pooledObjects s ! TARGET_TYPE_value k"

definition has_state :: "TARGET_TYPE \<Rightarrow> Scene \<Rightarrow> Entity \<Rightarrow> bool" where
  "has_state k s e =
     (case k of
        STATIC \<Rightarrow> TargetStaticComponent s e \<noteq> None
      | MOVING \<Rightarrow> TargetMovingComponent s e \<noteq> None)"

definition active :: "TARGET_TYPE \<Rightarrow> Scene \<Rightarrow> Entity \<Rightarrow> bool" where
  "active k s e =
     (case k of
        STATIC \<Rightarrow> (case TargetStaticComponent s e of
                      None \<Rightarrow> False
                    | Some c \<Rightarrow> TargetStaticComponentData.isActive c)
      | MOVING \<Rightarrow> (case TargetMovingComponent s e of
                      None \<Rightarrow> False
                    | Some c \<Rightarrow> isActive c))"

definition pool_ok :: "Scene \<Rightarrow> bool" where
  "pool_ok s \<longleftrightarrow>
     length (pooledObjects s) = 2 \<and>
     (\<forall>k. \<forall>e\<in>set (bucket k s). has_state k s e \<and> Transform s e \<noteq> None) \<and>
     engine_ok s"

definition gone :: "Entity \<Rightarrow> Scene \<Rightarrow> bool" where
  "gone e s \<longleftrightarrow>
     Transform s e = None \<and> GltfContainer s e = None \<and>
     TargetStaticComponent s e = None \<and> TargetMovingComponent s e = None"

definition quieter :: "Scene \<Rightarrow> Scene \<Rightarrow> bool" where
  "quieter s s' \<longleftrightarrow>
     nextEntity s' = nextEntity s \<and> pooledObjects s' = pooledObjects s \<and>
     GltfContainer s' = GltfContainer s \<and>
     (\<forall>e. (Transform s' e = None \<longleftrightarrow> Transform s e = None) \<and>
          (case TargetStaticComponent s e of
             None \<Rightarrow> TargetStaticComponent s' e = None
           | Some c \<Rightarrow> (\<exists>c'. TargetStaticComponent s' e = Some c' \<and>
                          (TargetStaticComponentData.isActive c' \<longrightarrow> TargetStaticComponentData.isActive c))) \<and>
          (case TargetMovingComponent s e of
             None \<Rightarrow> TargetMovingComponent s' e = None
           | Some c \<Rightarrow> (\<exists>c'. TargetMovingComponent s' e = Some c' \<and>
                          (isActive c' \<longrightarrow> isActive c) \<and> (isProcessing c' \<longrightarrow> isProcessing c))))"

definition switched_off :: "nat \<Rightarrow> Scene \<Rightarrow> Entity \<Rightarrow> bool" where
  "switched_off i s e \<longleftrightarrow>
     (i = 0 \<longrightarrow> (\<exists>c. TargetStaticComponent s e = Some c \<and> \<not> TargetStaticComponentData.isActive c)) \<and>
     (i = 1 \<longrightarrow> (\<exists>c. TargetMovingComponent s e = Some c \<and> \<not> isActive c \<and> \<not> isProcessing c))"

definition can_disable :: "nat \<Rightarrow> Scene \<Rightarrow> Entity \<Rightarrow> bool" where
  "can_disable i s e \<longleftrightarrow>
     (i = 0 \<longrightarrow> TargetStaticComponent s e \<noteq> None) \<and>
     (i = 1 \<longrightarrow> TargetMovingComponent s e \<noteq> None) \<and> Transform s e \<noteq> None"

text \<open>A vector of the program: each coordinate is a double.\<close>

definition is_double_vector :: "Vector3 \<Rightarrow> bool" where
  "is_double_vector p \<longleftrightarrow> is_double (x p) \<and> is_double (y p) \<and> is_double (z p)"

subsection \<open>Scenes used as examples\<close>

text \<open>One moving target, entity 0, on the way to the second of its two waypoints, with
  the direction and the speed of the scale-of-motion example.\<close>

definition cruising :: Scene where
  "cruising =
     \<lparr>nextEntity = 1,
      Transform = [0 \<mapsto> \<lparr>position = \<lparr>x = Fin 13, y = Fin 1, z = Fin 16\<rparr>, scale = Vector3_One\<rparr>],
      GltfContainer = [0 \<mapsto> \<lparr>src = MODEL_TARGET_OBJECT,
                              visibleMeshesCollisionMask = Some CL_POINTER,
                              invisibleMeshesCollisionMask = None\<rparr>],
      TargetStaticComponent = Map.empty,
      TargetMovingComponent =
        [0 \<mapsto> \<lparr>isActive = True, isProcessing = True, speed = Fin 2, indexCur = 1,
                waypoints = [\<lparr>x = Fin 11, y = Fin 1, z = Fin 16\<rparr>, \<lparr>x = Fin 21, y = Fin 1, z = Fin 16\<rparr>],
                normal = \<lparr>x = Fin 1, y = Fin 0, z = Fin 0\<rparr>\<rparr>],
      pooledObjects = [[], [0]]\<rparr>"

text \<open>The same target when it has reached the second waypoint.\<close>

definition at_last_waypoint :: Scene where
  "at_last_waypoint =
     cruising\<lparr>Transform :=
       [0 \<mapsto> \<lparr>position = \<lparr>x = Fin 21, y = Fin 1, z = Fin 16\<rparr>, scale = Vector3_One\<rparr>]\<rparr>"

text \<open>The same target far out on the first axis, at \<open>2^53\<close>, where the doubles are 2 apart.\<close>

definition far_out :: Scene where
  "far_out =
     cruising\<lparr>Transform :=
       [0 \<mapsto> \<lparr>position = \<lparr>x = Fin 9007199254740992, y = Fin 1, z = Fin 16\<rparr>,
               scale = Vector3_One\<rparr>]\<rparr>"

text \<open>The same target when the caller has stopped its processing.\<close>

definition parked :: Scene where
  "parked =
     cruising\<lparr>TargetMovingComponent :=
       [0 \<mapsto> \<lparr>isActive = True, isProcessing = False, speed = Fin 2, indexCur = 1,
               waypoints = [\<lparr>x = Fin 11, y = Fin 1, z = Fin 16\<rparr>, \<lparr>x = Fin 21, y = Fin 1, z = Fin 16\<rparr>],
               normal = \<lparr>x = Fin 1, y = Fin 0, z = Fin 0\<rparr>\<rparr>]\<rparr>"

text \<open>Two static targets, entities 0 and 1, both disabled: the pool after two calls of
  \<open>Create\<close> and one of \<open>DisableAll\<close>. Then the store after a \<open>Create\<close> that enables the
  first, and after a second \<open>Create\<close> that enables the other.\<close>

definition two_idle :: Scene where
  "two_idle =
     \<lparr>nextEntity = 2,
      Transform = [0 \<mapsto> \<lparr>position = Vector3_Zero, scale = Vector3_Zero\<rparr>,
                   1 \<mapsto> \<lparr>position = Vector3_Zero, scale = Vector3_Zero\<rparr>],
      GltfContainer = [0 \<mapsto> \<lparr>src = MODEL_TARGET_OBJECT,
                              visibleMeshesCollisionMask = Some CL_POINTER,
                              invisibleMeshesCollisionMask = None\<rparr>,
                       1 \<mapsto> \<lparr>src = MODEL_TARGET_OBJECT,
                              visibleMeshesCollisionMask = Some CL_POINTER,
                              invisibleMeshesCollisionMask = None\<rparr>],
      TargetStaticComponent = [0 \<mapsto> \<lparr>TargetStaticComponentData.isActive = False\<rparr>,
                               1 \<mapsto> \<lparr>TargetStaticComponentData.isActive = False\<rparr>],
      TargetMovingComponent = Map.empty,
      pooledObjects = [[0, 1], []]\<rparr>"

definition two_idle_first :: Scene where
  "two_idle_first =
     two_idle\<lparr>TargetStaticComponent := (TargetStaticComponent two_idle)
                 (0 \<mapsto> \<lparr>TargetStaticComponentData.isActive = True\<rparr>),
              Transform := (Transform two_idle)
                 (0 \<mapsto> \<lparr>position = Vector3_Zero, scale = Vector3_One\<rparr>)\<rparr>"

definition two_idle_second :: Scene where
  "two_idle_second =
     two_idle_first\<lparr>TargetStaticComponent := (TargetStaticComponent two_idle_first)
                       (1 \<mapsto> \<lparr>TargetStaticComponentData.isActive = True\<rparr>),
                    Transform := (Transform two_idle_first)
                       (1 \<mapsto> \<lparr>position = Vector3_One, scale = Vector3_One\<rparr>)\<rparr>"

text \<open>The first moving target of the demo scene after its set-up (lines 37-47 of
  \<open>main\<close>): created at \<open>(11, 1, 20)\<close>, then given the speed \<open>1.2\<close>, two waypoints and
  \<open>isProcessing = true\<close>.\<close>

definition demo_target :: Scene where
  "demo_target =
     \<lparr>nextEntity = 1,
      Transform = [0 \<mapsto> \<lparr>position = \<lparr>x = Fin 11, y = Fin 1, z = Fin 20\<rparr>, scale = Vector3_One\<rparr>],
      GltfContainer = [0 \<mapsto> \<lparr>src = MODEL_TARGET_OBJECT,
                              visibleMeshesCollisionMask = Some CL_POINTER,
                              invisibleMeshesCollisionMask = None\<rparr>],
      TargetStaticComponent = Map.empty,
      TargetMovingComponent =
        [0 \<mapsto> TargetMovingComponent_schema_default
               \<lparr>isActive := True, isProcessing := True, speed := rnd 1.2, indexCur := 0,
                waypoints := [\<lparr>x = Fin 11, y = Fin 1, z = Fin 16\<rparr>, \<lparr>x = Fin 21, y = Fin 1, z = Fin 16\<rparr>]\<rparr>],
      pooledObjects = [[], [0]]\<rparr>"

text \<open>The store right after that \<open>Create\<close>, and the same target when the caller gives it
  the speed \<open>2^600\<close> in place of \<open>1.2\<close>.\<close>

definition demo_created :: Scene where
  "demo_created =
     \<lparr>nextEntity = 1,
      Transform = [0 \<mapsto> \<lparr>position = \<lparr>x = Fin 11, y = Fin 1, z = Fin 20\<rparr>, scale = Vector3_One\<rparr>],
      GltfContainer = [0 \<mapsto> \<lparr>src = MODEL_TARGET_OBJECT,
                              visibleMeshesCollisionMask = Some CL_POINTER,
                              invisibleMeshesCollisionMask = None\<rparr>],
      TargetStaticComponent = Map.empty,
      TargetMovingComponent =
        [0 \<mapsto> TargetMovingComponent_schema_default\<lparr>isActive := True, isProcessing := False\<rparr>],
      pooledObjects = [[], [0]]\<rparr>"

definition overdriven :: Scene where
  "overdriven =
     demo_created\<lparr>TargetMovingComponent :=
       [0 \<mapsto> TargetMovingComponent_schema_default
               \<lparr>isActive := True, isProcessing := True, speed := Fin (pow2 600), indexCur := 0,
                waypoints := [\<lparr>x = Fin 11, y = Fin 1, z = Fin 16\<rparr>, \<lparr>x = Fin 21, y = Fin 1, z = Fin 16\<rparr>]\<rparr>]\<rparr>"

section \<open>Lemmas\<close>

subsection \<open>Rounding to the nearest double\<close>

text \<open>Powers of two, the rounding to the nearest integer, the exponent and the spacing of
  a binade, and then the facts about \<open>rnd\<close> that the properties need: it is the identity
  on the dyadic numbers with 53 significant bits, it does not cross a power of two, and a
  comparison of its result with a double is a comparison of its argument with the
  midpoint below that double.\<close>

lemma pow2_powr: "pow2 k = 2 powr of_int k"
  by (simp add: pow2_def powr_real_of_int divide_inverse)

lemma pow2_pos [simp]: "0 < pow2 k"
  by (simp add: pow2_def)

lemma pow2_nonneg [simp]: "0 \<le> pow2 k"
  by (simp add: pow2_def)

lemma pow2_not_le0 [simp]: "\<not> pow2 k \<le> 0"
  using pow2_pos[of k] by linarith

lemma pow2_not_less0 [simp]: "\<not> pow2 k < 0"
  using pow2_pos[of k] by linarith

lemma pow2_add: "pow2 (a + b) = pow2 a * pow2 b"
  by (simp add: pow2_powr powr_add)

lemma pow2_mono: "a \<le> b \<Longrightarrow> pow2 a \<le> pow2 b"
  by (simp add: pow2_powr)

lemma pow2_strict_mono: "a < b \<Longrightarrow> pow2 a < pow2 b"
  by (simp add: pow2_powr)

lemma pow2_nat: "pow2 (int n) = 2 ^ n"
  by (simp add: pow2_def)


lemma round_even_of_int [simp]: "round_even (of_int j) = j"
  by (simp add: round_even_def)

lemma round_even_cases:
  obtains (down) "round_even q = \<lfloor>q\<rfloor>" "q - of_int \<lfloor>q\<rfloor> \<le> 1 / 2"
  | (up) "round_even q = \<lfloor>q\<rfloor> + 1" "1 / 2 \<le> q - of_int \<lfloor>q\<rfloor>"
proof -
  consider (a) "q - of_int \<lfloor>q\<rfloor> < 1 / 2" | (b) "1 / 2 < q - of_int \<lfloor>q\<rfloor>"
    | (c) "q - of_int \<lfloor>q\<rfloor> = 1 / 2" by linarith
  then show thesis
  proof cases
    case a
    then have "round_even q = \<lfloor>q\<rfloor>" by (simp add: round_even_def)
    then show thesis using a down by simp
  next
    case b
    then have "round_even q = \<lfloor>q\<rfloor> + 1" by (simp add: round_even_def)
    then show thesis using b up by simp
  next
    case c
    then have "round_even q = \<lfloor>q\<rfloor> \<or> round_even q = \<lfloor>q\<rfloor> + 1" by (simp add: round_even_def)
    then show thesis using c down up by auto
  qed
qed

lemma round_even_error: "\<bar>of_int (round_even q) - q\<bar> \<le> 1 / 2"
proof (cases q rule: round_even_cases)
  case down
  then show ?thesis using of_int_floor_le[of q] by simp
next
  case up
  then show ?thesis using floor_correct[of q] by simp
qed

lemma round_even_less_iff:
  "round_even q < j \<longleftrightarrow> q < of_int j - 1 / 2 \<or> (q = of_int j - 1 / 2 \<and> odd j)"
proof -
  define f where "f = \<lfloor>q\<rfloor>"
  have f: "of_int f \<le> q" "q < of_int f + 1" unfolding f_def by linarith+
  consider "f + 1 < j" | "f + 1 = j" | "j \<le> f" by linarith
  then show ?thesis
  proof cases
    case 1
    then have "f + 2 \<le> j" by simp
    then have "of_int (f + 2) \<le> (of_int j :: real)" by (simp only: of_int_le_iff)
    then have "of_int f + 2 \<le> (of_int j :: real)" by simp
    then show ?thesis using f 1 by (auto simp: round_even_def f_def[symmetric])
  next
    case 2
    then have j: "(of_int j :: real) = of_int f + 1" by auto
    have "odd j \<longleftrightarrow> even f" using 2 by auto
    then show ?thesis using f 2 unfolding j by (auto simp: round_even_def f_def[symmetric])
  next
    case 3
    then have "(of_int j :: real) \<le> of_int f" by simp
    then show ?thesis using f 3 by (auto simp: round_even_def f_def[symmetric])
  qed
qed

lemma round_even_mono: "q \<le> q' \<Longrightarrow> round_even q \<le> round_even q'"
proof (rule ccontr)
  assume le: "q \<le> q'" and "\<not> round_even q \<le> round_even q'"
  then have "round_even q' < round_even q" by simp
  then have "q' < of_int (round_even q) - 1 / 2 \<or> (q' = of_int (round_even q) - 1 / 2 \<and> odd (round_even q))"
    by (simp add: round_even_less_iff)
  moreover have "\<not> (q < of_int (round_even q) - 1 / 2 \<or> (q = of_int (round_even q) - 1 / 2 \<and> odd (round_even q)))"
    using round_even_less_iff[of q "round_even q"] by simp
  ultimately show False using le by auto
qed

lemma round_even_minus: "round_even (- q) = - round_even q"
proof -
  have a: "round_even (- q) < j \<longleftrightarrow> - round_even q < j" for j
  proof -
    have "- round_even q < j \<longleftrightarrow> \<not> round_even q < - j + 1" by linarith
    also have "\<dots> \<longleftrightarrow> \<not> (q < of_int (- j + 1) - 1 / 2 \<or> (q = of_int (- j + 1) - 1 / 2 \<and> odd (- j + 1)))"
      by (simp only: round_even_less_iff)
    also have "\<dots> \<longleftrightarrow> - q < of_int j - 1 / 2 \<or> (- q = of_int j - 1 / 2 \<and> odd j)"
      by auto
    also have "\<dots> \<longleftrightarrow> round_even (- q) < j" by (simp only: round_even_less_iff)
    finally show ?thesis by simp
  qed
  show ?thesis
  proof (rule antisym)
    show "round_even (- q) \<le> - round_even q"
      using a[of "- round_even q + 1"] by simp
    show "- round_even q \<le> round_even (- q)"
      using a[of "- round_even q"] by simp
  qed
qed

lemma round_even_ge: "of_int j \<le> q \<Longrightarrow> j \<le> round_even q"
  using round_even_mono[of "of_int j" q] by simp

lemma round_even_le: "q \<le> of_int j \<Longrightarrow> round_even q \<le> j"
  using round_even_mono[of q "of_int j"] by simp


lemma pow2_le_iff [simp]: "pow2 a \<le> pow2 b \<longleftrightarrow> a \<le> b"
  by (simp add: pow2_powr)

lemma pow2_less_iff [simp]: "pow2 a < pow2 b \<longleftrightarrow> a < b"
  by (simp add: pow2_powr)

lemma pow2_diff: "pow2 a / pow2 b = pow2 (a - b)"
  by (simp add: pow2_powr powr_diff)

lemma pow2_of_nat: "0 \<le> k \<Longrightarrow> pow2 k = of_int (2 ^ nat k)"
  by (simp add: pow2_def)

lemma floor_log_bounds:
  assumes "r \<noteq> 0"
  shows "pow2 \<lfloor>log 2 \<bar>r\<bar>\<rfloor> \<le> \<bar>r\<bar>" and "\<bar>r\<bar> < pow2 (\<lfloor>log 2 \<bar>r\<bar>\<rfloor> + 1)"
  using floor_log_eq_powr_iff[of "\<bar>r\<bar>" 2 "\<lfloor>log 2 \<bar>r\<bar>\<rfloor>"] assms
  by (simp_all add: pow2_powr)

lemma exponent_ge: "- 1022 \<le> exponent r"
  by (simp add: exponent_def)

lemma exponent_eq:
  assumes "pow2 e \<le> \<bar>r\<bar>" "\<bar>r\<bar> < pow2 (e + 1)" "- 1022 \<le> e"
  shows "exponent r = e"
proof -
  have "0 < \<bar>r\<bar>" using assms(1) pow2_pos[of e] by linarith
  then have "\<lfloor>log 2 \<bar>r\<bar>\<rfloor> = e"
    using floor_log_eq_powr_iff[of "\<bar>r\<bar>" 2 e] assms(1,2) by (simp add: pow2_powr)
  then show ?thesis using assms(3) by (simp add: exponent_def)
qed

lemma exponent_small:
  assumes "r \<noteq> 0" "\<bar>r\<bar> < pow2 (- 1022)"
  shows "exponent r = - 1022"
proof -
  have "pow2 \<lfloor>log 2 \<bar>r\<bar>\<rfloor> < pow2 (- 1022)"
    using floor_log_bounds(1)[OF assms(1)] assms(2) by linarith
  then have "\<lfloor>log 2 \<bar>r\<bar>\<rfloor> < - 1022" by simp
  then show ?thesis by (simp add: exponent_def)
qed

lemma exponent_upper:
  assumes "r \<noteq> 0"
  shows "\<bar>r\<bar> < pow2 (exponent r + 1)"
proof -
  have "pow2 (\<lfloor>log 2 \<bar>r\<bar>\<rfloor> + 1) \<le> pow2 (exponent r + 1)" by (simp add: exponent_def)
  then show ?thesis using floor_log_bounds(2)[OF assms] by linarith
qed

lemma exponent_lower:
  assumes "pow2 (- 1022) \<le> \<bar>r\<bar>"
  shows "pow2 (exponent r) \<le> \<bar>r\<bar>"
proof -
  have "0 < \<bar>r\<bar>" using assms pow2_pos[of "- 1022"] by linarith
  then have nz: "r \<noteq> 0" by simp
  have "pow2 (- 1022) < pow2 (\<lfloor>log 2 \<bar>r\<bar>\<rfloor> + 1)"
    using floor_log_bounds(2)[OF nz] assms by linarith
  then have "- 1022 \<le> \<lfloor>log 2 \<bar>r\<bar>\<rfloor>" by simp
  then have "exponent r = \<lfloor>log 2 \<bar>r\<bar>\<rfloor>" by (simp add: exponent_def)
  then show ?thesis using floor_log_bounds(1)[OF nz] by simp
qed

lemma exponent_abs [simp]: "exponent \<bar>r\<bar> = exponent r"
  by (simp add: exponent_def)

lemma exponent_minus [simp]: "exponent (- r) = exponent r"
  by (simp add: exponent_def)

lemma ulp_pos [simp]: "0 < ulp r"
  by (simp add: ulp_def)

lemma ulp_nonneg [simp]: "0 \<le> ulp r"
  by (simp add: ulp_def)

lemma ulp_not_le0 [simp]: "\<not> ulp r \<le> 0"
  by (simp add: ulp_def)

lemma ulp_not_less0 [simp]: "\<not> ulp r < 0"
  by (simp add: ulp_def)

lemma ulp_abs [simp]: "ulp \<bar>r\<bar> = ulp r"
  by (simp add: ulp_def)

lemma ulp_minus [simp]: "ulp (- r) = ulp r"
  by (simp add: ulp_def)

text \<open>When \<open>0 < r \<le> pow2 k\<close>, the unit of \<open>r\<close> divides \<open>pow2 k\<close>.\<close>

lemma exponent_le:
  assumes "0 < r" "r \<le> pow2 k" "- 1022 \<le> k"
  shows "exponent r \<le> k"
proof (cases "pow2 (- 1022) \<le> \<bar>r\<bar>")
  case True
  from exponent_lower[OF True] assms have "pow2 (exponent r) \<le> pow2 k" by linarith
  then show ?thesis by simp
next
  case False
  then show ?thesis using exponent_small[of r] assms by simp
qed


lemma rnd_zero [simp]: "rnd 0 = Fin 0"
  by (simp add: rnd_def)

lemma rnd_mant:
  "r \<noteq> 0 \<Longrightarrow>
   rnd r = (if pow2 1024 \<le> \<bar>of_int (mant r) * ulp r\<bar> then (if 0 < r then PInf else NInf)
            else Fin (of_int (mant r) * ulp r))"
  by (simp add: rnd_def)

lemma mant_minus: "mant (- r) = - mant r"
  by (simp add: mant_def round_even_minus)

lemma mant_nonneg:
  assumes "0 \<le> r"
  shows "0 \<le> mant r"
proof -
  have "of_int 0 \<le> r / ulp r" using assms by simp
  then show ?thesis unfolding mant_def by (rule round_even_ge)
qed

lemma mant_nonpos:
  assumes "r \<le> 0"
  shows "mant r \<le> 0"
proof -
  have "r / ulp r \<le> of_int 0" using assms by (simp add: divide_le_0_iff)
  then show ?thesis unfolding mant_def by (rule round_even_le)
qed

lemma Math_abs_rnd: "Math_abs (rnd r) = rnd \<bar>r\<bar>"
proof -
  consider (neg) "r < 0" | (zero) "r = 0" | (pos) "0 < r" by linarith
  then show ?thesis
  proof cases
    case neg
    have "of_int (mant r) * ulp r \<le> 0"
      using mant_nonpos[of r] neg by (simp add: mult_le_0_iff)
    then have a: "\<bar>of_int (mant r) * ulp r\<bar> = of_int (mant (- r)) * ulp (- r)"
      by (simp add: mant_minus)
    have "rnd \<bar>r\<bar> = rnd (- r)" using neg by simp
    also have "\<dots> = (if pow2 1024 \<le> \<bar>of_int (mant (- r)) * ulp (- r)\<bar> then PInf
                      else Fin (of_int (mant (- r)) * ulp (- r)))"
      using neg by (simp add: rnd_mant)
    also have "\<dots> = Math_abs (rnd r)"
      using neg a by (simp add: rnd_mant mant_minus)
    finally show ?thesis by simp
  next
    case zero
    then show ?thesis by simp
  next
    case pos
    have "0 \<le> of_int (mant r) * ulp r" using mant_nonneg[of r] pos by simp
    then show ?thesis using pos by (simp add: rnd_mant)
  qed
qed

text \<open>Rounding does not cross a power of two.\<close>

lemma rnd_above:
  assumes "pow2 k \<le> r" "- 1022 \<le> k"
  shows "rnd r = PInf \<or> (\<exists>m. rnd r = Fin m \<and> pow2 k \<le> m)"
proof -
  have pos: "0 < r" using assms(1) pow2_pos[of k] by linarith
  have "pow2 (- 1022) \<le> pow2 k" using assms(2) by simp
  then have "pow2 (- 1022) \<le> \<bar>r\<bar>" using assms(1) pos by linarith
  from exponent_lower[OF this] have low: "pow2 (exponent r) \<le> r" using pos by simp
  have "\<bar>r\<bar> < pow2 (exponent r + 1)" using exponent_upper[of r] pos by simp
  then have "pow2 k < pow2 (exponent r + 1)" using assms(1) pos by linarith
  then have ke: "k \<le> exponent r" by simp
  have "of_int (2 ^ 52) \<le> r / ulp r"
    using low pow2_diff[of "exponent r" "exponent r - 52"]
    by (simp add: ulp_def pow2_def divide_le_cancel field_simps)
  then have "2 ^ 52 \<le> mant r" unfolding mant_def by (rule round_even_ge)
  then have "(of_int (2 ^ 52) :: real) \<le> of_int (mant r)" by (simp only: of_int_le_iff)
  then have "of_int (2 ^ 52) * ulp r \<le> of_int (mant r) * ulp r"
    by (rule mult_right_mono) simp
  moreover have "of_int (2 ^ 52) * ulp r = pow2 (exponent r)"
    using pow2_add[of 52 "exponent r - 52"] by (simp add: ulp_def pow2_def)
  ultimately have "pow2 k \<le> of_int (mant r) * ulp r" using pow2_mono[OF ke] by linarith
  then show ?thesis using pos by (simp add: rnd_mant)
qed

lemma rnd_below:
  assumes "0 \<le> r" "r \<le> pow2 k" "- 1022 \<le> k" "k \<le> 1023"
  shows "\<exists>m. rnd r = Fin m \<and> 0 \<le> m \<and> m \<le> pow2 k"
proof (cases "r = 0")
  case True
  then show ?thesis using pow2_pos[of k] by (simp add: less_imp_le)
next
  case False
  then have pos: "0 < r" using assms(1) by simp
  have ek: "exponent r \<le> k" using exponent_le[OF pos assms(2,3)] .
  then have nn: "0 \<le> k - (exponent r - 52)" by simp
  have "r / ulp r \<le> pow2 k / ulp r"
    by (rule divide_right_mono) (use assms(2) in \<open>simp_all add: less_imp_le\<close>)
  also have "\<dots> = of_int (2 ^ nat (k - (exponent r - 52)))"
    using pow2_of_nat[OF nn] by (simp add: ulp_def pow2_diff)
  finally have "mant r \<le> 2 ^ nat (k - (exponent r - 52))"
    unfolding mant_def by (rule round_even_le)
  then have "(of_int (mant r) :: real) \<le> of_int (2 ^ nat (k - (exponent r - 52)))"
    by (simp only: of_int_le_iff)
  then have "of_int (mant r) * ulp r \<le> of_int (2 ^ nat (k - (exponent r - 52))) * ulp r"
    by (rule mult_right_mono) simp
  also have "\<dots> = pow2 k"
    using pow2_of_nat[OF nn] pow2_add[of "k - (exponent r - 52)" "exponent r - 52"]
    by (simp add: ulp_def)
  finally have up: "of_int (mant r) * ulp r \<le> pow2 k" .
  have lo: "0 \<le> of_int (mant r) * ulp r" using mant_nonneg[of r] pos by simp
  have "pow2 k < pow2 1024" using assms(4) by simp
  then have "\<not> pow2 1024 \<le> \<bar>of_int (mant r) * ulp r\<bar>" using up lo by linarith
  then show ?thesis using False up lo by (simp add: rnd_mant)
qed

lemma rnd_finite: "\<bar>r\<bar> \<le> pow2 1023 \<Longrightarrow> isFinite (rnd r)"
  using rnd_below[of "\<bar>r\<bar>" 1023] Math_abs_rnd[of r]
  by (cases "rnd r") auto


text \<open>A number with at most 53 significant bits, in the range of the exponents, is a
  double: rounding leaves it as it is.\<close>

lemma pow2_nonzero [simp]: "pow2 k \<noteq> 0"
  using pow2_pos[of k] by linarith

lemma rnd_exact:
  assumes "\<bar>n\<bar> < 2 ^ 53" "- 1074 \<le> k" "k \<le> 971"
  shows "rnd (of_int n * pow2 k) = Fin (of_int n * pow2 k)"
proof (cases "n = 0")
  case True
  then show ?thesis by simp
next
  case False
  define r where "r = of_int n * pow2 k"
  have nz: "r \<noteq> 0" using False by (simp add: r_def)
  have "\<bar>r\<bar> = of_int \<bar>n\<bar> * pow2 k" by (simp add: r_def abs_mult)
  also have "\<dots> < of_int (2 ^ 53) * pow2 k"
    using assms(1) by (simp only: mult_less_cancel_right_pos[OF pow2_pos] of_int_less_iff)
  also have "\<dots> = pow2 (k + 53)" using pow2_add[of 53 k] by (simp add: pow2_def add.commute)
  finally have up: "\<bar>r\<bar> < pow2 (k + 53)" .
  have ek: "exponent r - 52 \<le> k"
  proof (cases "pow2 (- 1022) \<le> \<bar>r\<bar>")
    case True
    from exponent_lower[OF True] up have "pow2 (exponent r) < pow2 (k + 53)" by linarith
    then show ?thesis by simp
  next
    case False
    then show ?thesis using exponent_small[OF nz] assms(2) by simp
  qed
  then have nn: "0 \<le> k - (exponent r - 52)" by simp
  have "r / ulp r = of_int n * (pow2 k / pow2 (exponent r - 52))" by (simp add: r_def ulp_def)
  also have "\<dots> = of_int (n * 2 ^ nat (k - (exponent r - 52)))"
    using pow2_of_nat[OF nn] by (simp add: pow2_diff)
  finally have "mant r = n * 2 ^ nat (k - (exponent r - 52))"
    unfolding mant_def by (simp only: round_even_of_int)
  then have "of_int (mant r) * ulp r = of_int n * (pow2 (k - (exponent r - 52)) * pow2 (exponent r - 52))"
    using pow2_of_nat[OF nn] by (simp add: ulp_def)
  also have "\<dots> = r" using pow2_add[of "k - (exponent r - 52)" "exponent r - 52"] by (simp add: r_def)
  finally have m: "of_int (mant r) * ulp r = r" .
  have "pow2 (k + 53) \<le> pow2 1024" using assms(3) by simp
  then have "\<not> pow2 1024 \<le> \<bar>r\<bar>" using up by linarith
  then show ?thesis using nz m unfolding r_def[symmetric] by (simp add: rnd_mant)
qed

lemma rnd_of_int: "\<bar>n\<bar> < 2 ^ 53 \<Longrightarrow> rnd (of_int n) = Fin (of_int n)"
  using rnd_exact[of n 0] by (simp add: pow2_def)

lemma rnd_numeral [simp]: "numeral n < (2 ^ 53 :: int) \<Longrightarrow> rnd (numeral n) = Fin (numeral n)"
  using rnd_of_int[of "numeral n"] by simp

lemma rnd_neg_numeral [simp]:
  "numeral n < (2 ^ 53 :: int) \<Longrightarrow> rnd (- numeral n) = Fin (- numeral n)"
  using rnd_of_int[of "- numeral n"] by simp

lemma rnd_one [simp]: "rnd 1 = Fin 1"
  using rnd_of_int[of 1] by simp

text \<open>The value of \<open>rnd\<close> once the binade of the argument is known.\<close>

lemma rnd_binade:
  assumes "pow2 e \<le> \<bar>r\<bar>" "\<bar>r\<bar> < pow2 (e + 1)" "- 1022 \<le> e"
  shows "rnd r =
     (if pow2 1024 \<le> \<bar>of_int (round_even (r / pow2 (e - 52))) * pow2 (e - 52)\<bar>
      then (if 0 < r then PInf else NInf)
      else Fin (of_int (round_even (r / pow2 (e - 52))) * pow2 (e - 52)))"
proof -
  have "0 < \<bar>r\<bar>" using assms(1) pow2_pos[of e] by linarith
  then have "r \<noteq> 0" by simp
  then show ?thesis using exponent_eq[OF assms] by (simp add: rnd_def mant_def ulp_def)
qed

text \<open>The comparison of a rounded number with a double \<open>j * pow2 (e - 52)\<close> of the binade
  \<open>e\<close>, in terms of the number before rounding: a tie goes to the even neighbour.\<close>

lemma rnd_less_iff:
  assumes r: "0 \<le> r" and e: "- 1022 \<le> e" "e \<le> 1022" and j: "2 ^ 52 < j" "j \<le> 2 ^ 53"
  shows "rnd r < Fin (of_int j * pow2 (e - 52)) \<longleftrightarrow>
         r / pow2 (e - 52) < of_int j - 1 / 2 \<or> (r / pow2 (e - 52) = of_int j - 1 / 2 \<and> odd j)"
proof -
  let ?u = "pow2 (e - 52)"
  have pe: "pow2 e = of_int (2 ^ 52) * ?u" using pow2_add[of 52 "e - 52"] by (simp add: pow2_def)
  have pe1: "pow2 (e + 1) = of_int (2 ^ 53) * ?u"
    using pow2_add[of 53 "e - 52"] by (simp add: pow2_def add.commute)
  have jr: "(of_int (2 ^ 52) :: real) < of_int j" "(of_int j :: real) \<le> of_int (2 ^ 53)"
    using j by (simp_all only: of_int_less_iff of_int_le_iff)
  consider (low) "r < pow2 e" | (mid) "pow2 e \<le> r" "r < pow2 (e + 1)" | (high) "pow2 (e + 1) \<le> r"
    by linarith
  then show ?thesis
  proof cases
    case low
    have le: "r \<le> pow2 e" using low by simp
    have e3: "e \<le> 1023" using e(2) by simp
    from rnd_below[OF r le e(1) e3] obtain m where m: "rnd r = Fin m" "m \<le> pow2 e"
      by blast
    have "of_int (2 ^ 52) * ?u < of_int j * ?u"
      using jr(1) by (simp only: mult_less_cancel_right_pos[OF pow2_pos])
    then have "m < of_int j * ?u" using m(2) unfolding pe by linarith
    moreover have "r / ?u < of_int (2 ^ 52)" using low unfolding pe by (simp add: divide_less_eq)
    then have "r / ?u < of_int j - 1 / 2" using jr(1) j(1) by linarith
    ultimately show ?thesis using m(1) by simp
  next
    case mid
    have ar: "\<bar>r\<bar> = r" using r by simp
    have "r / ?u < of_int (2 ^ 53)" using mid(2) unfolding pe1 by (simp add: divide_less_eq)
    then have "round_even (r / ?u) \<le> 2 ^ 53" by (intro round_even_le) simp
    then have "(of_int (round_even (r / ?u)) :: real) \<le> of_int (2 ^ 53)" by (simp only: of_int_le_iff)
    then have "of_int (round_even (r / ?u)) * ?u \<le> of_int (2 ^ 53) * ?u"
      by (rule mult_right_mono) simp
    then have up: "of_int (round_even (r / ?u)) * ?u \<le> pow2 (e + 1)" unfolding pe1 .
    have "of_int 0 \<le> r / ?u" using r by simp
    then have "0 \<le> round_even (r / ?u)" by (rule round_even_ge)
    then have lo: "0 \<le> of_int (round_even (r / ?u)) * ?u" by simp
    have "pow2 (e + 1) < pow2 1024" using e(2) by simp
    then have "\<not> pow2 1024 \<le> \<bar>of_int (round_even (r / ?u)) * ?u\<bar>" using up lo by linarith
    then have "rnd r = Fin (of_int (round_even (r / ?u)) * ?u)"
      using rnd_binade[of e r] mid e(1) ar by simp
    then have "rnd r < Fin (of_int j * ?u) \<longleftrightarrow> round_even (r / ?u) < j"
      by (simp add: mult_less_cancel_right_pos[OF pow2_pos])
    then show ?thesis by (simp only: round_even_less_iff)
  next
    case high
    have "- 1022 \<le> e + 1" using e(1) by simp
    from rnd_above[OF high this] have "\<not> rnd r < Fin (of_int j * ?u)"
    proof
      assume "rnd r = PInf"
      then show ?thesis by simp
    next
      assume "\<exists>m. rnd r = Fin m \<and> pow2 (e + 1) \<le> m"
      then obtain m where m: "rnd r = Fin m" "pow2 (e + 1) \<le> m" by blast
      have "of_int j * ?u \<le> pow2 (e + 1)" unfolding pe1 using jr(2) by (rule mult_right_mono) simp
      then show ?thesis using m by simp
    qed
    moreover have "of_int (2 ^ 53) \<le> r / ?u" using high unfolding pe1 by (simp add: le_divide_eq)
    then have "\<not> (r / ?u < of_int j - 1 / 2 \<or> (r / ?u = of_int j - 1 / 2 \<and> odd j))"
      using jr(2) by linarith
    ultimately show ?thesis by simp
  qed
qed


text \<open>Rounding inside a binade below the last one does not overflow.\<close>

lemma rnd_normal:
  assumes "pow2 e \<le> \<bar>r\<bar>" "\<bar>r\<bar> < pow2 (e + 1)" "- 1022 \<le> e" "e \<le> 1022"
  shows "rnd r = Fin (of_int (round_even (r / pow2 (e - 52))) * pow2 (e - 52))"
proof -
  let ?u = "pow2 (e - 52)"
  have pe1: "pow2 (e + 1) = of_int (2 ^ 53) * ?u"
    using pow2_add[of 53 "e - 52"] by (simp add: pow2_def add.commute)
  have "\<bar>r\<bar> / ?u < of_int (2 ^ 53)" using assms(2) unfolding pe1 by (simp add: divide_less_eq)
  moreover have "\<bar>r\<bar> / ?u = \<bar>r / ?u\<bar>" by simp
  ultimately have q: "r / ?u \<le> of_int (2 ^ 53)" "of_int (- (2 ^ 53)) \<le> r / ?u"
    by linarith+
  have "round_even (r / ?u) \<le> 2 ^ 53" using q(1) by (rule round_even_le)
  moreover have "- (2 ^ 53) \<le> round_even (r / ?u)" using q(2) by (rule round_even_ge)
  ultimately have "\<bar>round_even (r / ?u)\<bar> \<le> 2 ^ 53" by simp
  then have "(of_int \<bar>round_even (r / ?u)\<bar> :: real) \<le> of_int (2 ^ 53)" by (simp only: of_int_le_iff)
  then have "of_int \<bar>round_even (r / ?u)\<bar> * ?u \<le> of_int (2 ^ 53) * ?u"
    by (rule mult_right_mono) simp
  then have up: "\<bar>of_int (round_even (r / ?u)) * ?u\<bar> \<le> pow2 (e + 1)"
    unfolding pe1 by (simp add: abs_mult)
  have "pow2 (e + 1) < pow2 1024" using assms(4) by simp
  then have "\<not> pow2 1024 \<le> \<bar>of_int (round_even (r / ?u)) * ?u\<bar>" using up by linarith
  then show ?thesis using rnd_binade[OF assms(1-3)] by simp
qed

text \<open>A finite result of a rounding is below the overflow threshold, and a number at or
  above the threshold rounds to an infinity.\<close>

lemma rnd_Fin_bound: "rnd r = Fin m \<Longrightarrow> \<bar>m\<bar> < pow2 1024"
  by (auto simp: rnd_def split: if_splits)

lemma rnd_overflow: "pow2 1024 \<le> r \<Longrightarrow> rnd r = PInf"
  using rnd_above[of 1024 r] rnd_Fin_bound[of r] by fastforce

lemma rnd_small: "\<bar>r\<bar> \<le> pow2 k \<Longrightarrow> k \<le> 1023 \<Longrightarrow> isFinite (rnd r)"
proof -
  assume a: "\<bar>r\<bar> \<le> pow2 k" "k \<le> 1023"
  have "pow2 k \<le> pow2 1023" using a(2) by simp
  then have "\<bar>r\<bar> \<le> pow2 1023" using a(1) by linarith
  then show ?thesis by (rule rnd_finite)
qed

text \<open>The numbers of the program are the doubles: adding zero to one of them, or
  multiplying a finite one by zero, is exact.\<close>

lemma is_double_add_zero: "is_double a \<Longrightarrow> a + Fin 0 = a"
  by (cases a) simp_all

lemma times_zero: "isFinite a \<Longrightarrow> a * Fin 0 = Fin 0"
  by (cases a) simp_all

lemma is_double_dyadic:
  "\<bar>n\<bar> < 2 ^ 53 \<Longrightarrow> - 1074 \<le> k \<Longrightarrow> k \<le> 971 \<Longrightarrow> is_double (Fin (of_int n * pow2 k))"
  by (simp add: rnd_exact)

text \<open>The doubles that the literals of the program denote.\<close>

lemma rnd_0_05: "rnd 0.05 = Fin (7205759403792794 / 2 ^ 57)"
  using rnd_normal[of "- 5" "0.05"] by (simp add: pow2_def round_even_def)

lemma rnd_0_02: "rnd 0.02 = Fin (5764607523034235 / 2 ^ 58)"
  using rnd_normal[of "- 6" "0.02"] by (simp add: pow2_def round_even_def)

lemma rnd_1_2: "rnd 1.2 = Fin (5404319552844595 / 2 ^ 52)"
  using rnd_normal[of 0 "1.2"] by (simp add: pow2_def round_even_def)

lemma rnd_tie: "rnd 9007199254740993 = Fin 9007199254740992"
  using rnd_normal[of 53 9007199254740993] by (simp add: pow2_def round_even_def)

subsection \<open>Exceptions, numbers and the step of the moving-target system\<close>

lemma then_do_Inl [simp]: "then_do (Inl err) f = Inl err"
  by (simp add: then_do_def)

lemma then_do_Inr [simp]: "then_do (Inr a) f = f a"
  by (simp add: then_do_def)

lemma then_do_eq_Inr: "then_do m f = Inr r \<longleftrightarrow> (\<exists>a. m = Inr a \<and> f a = Inr r)"
  by (cases m) simp_all

lemma component_get_Some [simp]: "table e = Some c \<Longrightarrow> component_get table e = Inr c"
  by (simp add: component_get_def)

lemma component_get_None [simp]: "table e = None \<Longrightarrow> component_get table e = Inl ComponentNotFound"
  by (simp add: component_get_def)

lemma component_get_eq_Inr: "component_get table e = Inr c \<longleftrightarrow> table e = Some c"
  by (simp add: component_get_def split: option.splits)

lemma retarget_fields:
  "retarget c p = Inr c' \<Longrightarrow>
     isActive c' = isActive c \<and> isProcessing c' = isProcessing c \<and> speed c' = speed c \<and>
     waypoints c' = waypoints c \<and> 0 \<le> indexCur c' \<and> indexCur c' < int (length (waypoints c))"
  by (auto simp: retarget_def Let_def then_do_eq_Inr waypoint_at_def split: if_splits)

lemma wrap_index:
  fixes i n :: int
  assumes "0 \<le> i" "i < n"
  shows "(if n \<le> i + 1 then 0 else i + 1) = (i + 1) mod n"
proof (cases "n \<le> i + 1")
  case True
  with assms have "i + 1 = n" by simp
  then show ?thesis by simp
next
  case False
  with assms show ?thesis by simp
qed

lemma retarget_index:
  assumes "0 \<le> indexCur c" "indexCur c < int (length (waypoints c))"
  shows "\<exists>c'. retarget c p = Inr c' \<and> indexCur c' = (indexCur c + 1) mod int (length (waypoints c))"
proof -
  have "indexCur c' = (indexCur c + 1) mod int (length (waypoints c))"
    if "retarget c p = Inr c'" for c'
    using that wrap_index[OF assms]
    by (auto simp: retarget_def Let_def then_do_eq_Inr waypoint_at_def split: if_splits)
  moreover have "\<exists>c'. retarget c p = Inr c'"
    using assms by (auto simp: retarget_def Let_def waypoint_at_def)
  ultimately show ?thesis by blast
qed

lemma MovingTimer_move_fields:
  "MovingTimer_move dt c p = Inr (c', p') \<Longrightarrow>
     isActive c' = isActive c \<and> isProcessing c' = isProcessing c \<and> speed c' = speed c \<and>
     waypoints c' = waypoints c \<and> 0 \<le> indexCur c' \<and> indexCur c' < int (length (waypoints c)) \<and>
     p' = translate dt c' p"
  by (auto simp: MovingTimer_move_def then_do_eq_Inr waypoint_at_def dest: retarget_fields split: if_splits)

lemma MovingTimer_move_returns:
  "0 \<le> indexCur c \<Longrightarrow> indexCur c < int (length (waypoints c)) \<Longrightarrow>
   \<exists>c' p'. MovingTimer_move dt c p = Inr (c', p')"
  using retarget_index[of c p]
  by (auto simp: MovingTimer_move_def waypoint_at_def)


lemma MovingTimer_entity_idle:
  "TargetMovingComponent s e = Some c \<Longrightarrow> \<not> isActive c \<or> \<not> isProcessing c \<Longrightarrow>
   MovingTimer_entity dt e s = Inr s"
  by (auto simp: MovingTimer_entity_def)

lemma MovingTimer_entity_busy:
  "TargetMovingComponent s e = Some c \<Longrightarrow> isActive c \<Longrightarrow> isProcessing c \<Longrightarrow>
   Transform s e = Some tr \<Longrightarrow> MovingTimer_move dt c (position tr) = Inr (c', p') \<Longrightarrow>
   MovingTimer_entity dt e s =
     Inr (s\<lparr>TargetMovingComponent := (TargetMovingComponent s)(e \<mapsto> c'),
            Transform := (Transform s)(e \<mapsto> tr\<lparr>position := p'\<rparr>)\<rparr>)"
  by (simp add: MovingTimer_entity_def)

lemma MovingTimer_entity_cases:
  assumes "MovingTimer_entity dt e s = Inr s'"
  obtains (idle) c where "TargetMovingComponent s e = Some c" "\<not> isActive c \<or> \<not> isProcessing c" "s' = s"
  | (busy) c tr c' p' where "TargetMovingComponent s e = Some c" "isActive c" "isProcessing c"
      "Transform s e = Some tr" "MovingTimer_move dt c (position tr) = Inr (c', p')"
      "s' = s\<lparr>TargetMovingComponent := (TargetMovingComponent s)(e \<mapsto> c'),
              Transform := (Transform s)(e \<mapsto> tr\<lparr>position := p'\<rparr>)\<rparr>"
proof -
  from assms obtain c where c: "TargetMovingComponent s e = Some c"
    by (auto simp: MovingTimer_entity_def then_do_eq_Inr component_get_eq_Inr)
  show thesis
  proof (cases "\<not> isActive c \<or> \<not> isProcessing c")
    case True
    then have "s' = s" using assms c by (auto simp: MovingTimer_entity_def)
    then show thesis using idle c True by blast
  next
    case False
    with assms c obtain tr c' p' where
      "Transform s e = Some tr" "MovingTimer_move dt c (position tr) = Inr (c', p')"
      "s' = s\<lparr>TargetMovingComponent := (TargetMovingComponent s)(e \<mapsto> c'),
              Transform := (Transform s)(e \<mapsto> tr\<lparr>position := p'\<rparr>)\<rparr>"
      by (auto simp: MovingTimer_entity_def then_do_eq_Inr component_get_eq_Inr)
    then show thesis using busy c False by blast
  qed
qed

lemma MovingTimer_entity_other:
  assumes "MovingTimer_entity dt e' s = Inr s'" "e \<noteq> e'"
  shows "TargetMovingComponent s' e = TargetMovingComponent s e \<and> Transform s' e = Transform s e"
  using assms(1)
  by (cases rule: MovingTimer_entity_cases) (use assms(2) in auto)

lemma MovingTimer_entity_frame:
  assumes "MovingTimer_entity dt e' s = Inr s'"
  shows "nextEntity s' = nextEntity s \<and> pooledObjects s' = pooledObjects s \<and>
         GltfContainer s' = GltfContainer s \<and> TargetStaticComponent s' = TargetStaticComponent s \<and>
         (TargetMovingComponent s' e = None \<longleftrightarrow> TargetMovingComponent s e = None) \<and>
         (Transform s' e = None \<longleftrightarrow> Transform s e = None)"
  using assms
  by (cases rule: MovingTimer_entity_cases) auto

text \<open>Whatever the loop does, it keeps a property of the store that every single step keeps.\<close>

lemma MovingTimer_loop_invariant:
  assumes step: "\<And>e s s'. P s \<Longrightarrow> MovingTimer_entity dt e s = Inr s' \<Longrightarrow> P s'"
  shows "P s \<Longrightarrow> P (snd (MovingTimer_loop dt es s))"
proof (induction es arbitrary: s)
  case Nil
  then show ?case by simp
next
  case (Cons e es)
  show ?case
  proof (cases "MovingTimer_entity dt e s")
    case (Inl err)
    then show ?thesis using Cons.prems by simp
  next
    case (Inr s')
    then have "P s'" using step Cons.prems by blast
    then show ?thesis using Inr Cons.IH by simp
  qed
qed

lemma run_ticks_invariant:
  assumes "\<And>dt e s s'. dt \<in> set dts \<Longrightarrow> P s \<Longrightarrow> MovingTimer_entity dt e s = Inr s' \<Longrightarrow> P s'"
    and "P s"
  shows "P (run_ticks dts s)"
  using assms
proof (induction dts arbitrary: s)
  case Nil
  then show ?case by simp
next
  case (Cons dt dts)
  have now: "P (snd (MovingTimer dt s))"
    unfolding MovingTimer_def
    by (rule MovingTimer_loop_invariant[where P = P]) (use Cons.prems in auto)
  have "P (run_ticks dts (snd (MovingTimer dt s)))"
    by (rule Cons.IH[OF _ now]) (use Cons.prems(1) in auto)
  then show ?case by simp
qed

lemma MovingTimer_loop_skips:
  "e \<notin> set es \<Longrightarrow>
   TargetMovingComponent (snd (MovingTimer_loop dt es s)) e = TargetMovingComponent s e \<and>
   Transform (snd (MovingTimer_loop dt es s)) e = Transform s e"
proof (induction es arbitrary: s)
  case Nil
  then show ?case by simp
next
  case (Cons e' es)
  then have ne: "e \<noteq> e'" and notin: "e \<notin> set es" by auto
  show ?case
  proof (cases "MovingTimer_entity dt e' s")
    case (Inl err)
    then show ?thesis by simp
  next
    case (Inr s')
    then show ?thesis
      using Cons.IH[OF notin, of s'] MovingTimer_entity_other[OF Inr ne] by simp
  qed
qed

lemma MovingTimer_entity_ready:
  assumes "targets_ready s" "TargetMovingComponent s e \<noteq> None"
  shows "\<exists>s'. MovingTimer_entity dt e s = Inr s' \<and> targets_ready s'"
proof -
  from assms(2) obtain c where c: "TargetMovingComponent s e = Some c" by auto
  show ?thesis
  proof (cases "isActive c \<and> isProcessing c")
    case False
    then show ?thesis using c assms(1) by (auto simp: MovingTimer_entity_idle)
  next
    case True
    with assms(1) c obtain tr where tr: "Transform s e = Some tr"
      and idx: "0 \<le> indexCur c" "indexCur c < int (length (waypoints c))"
      by (auto simp: targets_ready_def)
    from MovingTimer_move_returns[OF idx] obtain c' p'
      where mv: "MovingTimer_move dt c (position tr) = Inr (c', p')" by blast
    note f = MovingTimer_move_fields[OF mv]
    have "targets_ready (s\<lparr>TargetMovingComponent := (TargetMovingComponent s)(e \<mapsto> c'),
            Transform := (Transform s)(e \<mapsto> tr\<lparr>position := p'\<rparr>)\<rparr>)"
      using assms(1) f by (auto simp: targets_ready_def)
    then show ?thesis
      using MovingTimer_entity_busy[OF c _ _ tr mv] True by simp
  qed
qed

lemma MovingTimer_loop_returns:
  "targets_ready s \<Longrightarrow> \<forall>e\<in>set es. TargetMovingComponent s e \<noteq> None \<Longrightarrow>
   fst (MovingTimer_loop dt es s) = None \<and> targets_ready (snd (MovingTimer_loop dt es s))"
proof (induction es arbitrary: s)
  case Nil
  then show ?case by simp
next
  case (Cons e es)
  from MovingTimer_entity_ready[OF Cons.prems(1), of e dt] Cons.prems(2)
  obtain s' where s': "MovingTimer_entity dt e s = Inr s'" "targets_ready s'" by auto
  have "\<forall>e\<in>set es. TargetMovingComponent s' e \<noteq> None"
    using Cons.prems(2) MovingTimer_entity_frame[OF s'(1)] by simp
  from Cons.IH[OF s'(2) this] show ?case using s'(1) by simp
qed

text \<open>A tick that returns has run the body once on every entity of the list, on this
  entity's component and transform as they were before the tick.\<close>

lemma MovingTimer_loop_effect:
  assumes "distinct es" "e \<in> set es" "fst (MovingTimer_loop dt es s) = None"
  shows "\<exists>se. MovingTimer_entity dt e s = Inr se \<and>
           TargetMovingComponent (snd (MovingTimer_loop dt es s)) e = TargetMovingComponent se e \<and>
           Transform (snd (MovingTimer_loop dt es s)) e = Transform se e"
  using assms
proof (induction es arbitrary: s)
  case Nil
  then show ?case by simp
next
  case (Cons e' es)
  from Cons.prems(3) obtain s' where s': "MovingTimer_entity dt e' s = Inr s'"
    by (cases "MovingTimer_entity dt e' s") auto
  then have rest: "fst (MovingTimer_loop dt es s') = None" using Cons.prems(3) by simp
  show ?case
  proof (cases "e = e'")
    case True
    then have "e \<notin> set es" using Cons.prems(1) by simp
    from MovingTimer_loop_skips[OF this, of dt s'] show ?thesis using s' True by simp
  next
    case False
    then have "e \<in> set es" "distinct es" using Cons.prems by auto
    from Cons.IH[OF this(2) this(1) rest] obtain se where
      se: "MovingTimer_entity dt e s' = Inr se"
      "TargetMovingComponent (snd (MovingTimer_loop dt es s')) e = TargetMovingComponent se e"
      "Transform (snd (MovingTimer_loop dt es s')) e = Transform se e" by blast
    note same = MovingTimer_entity_other[OF s' False]
    from se(1) show ?thesis
    proof (cases rule: MovingTimer_entity_cases)
      case (idle c)
      then have "MovingTimer_entity dt e s = Inr s" using same by (simp add: MovingTimer_entity_idle)
      then show ?thesis using se idle same s' by simp
    next
      case (busy c tr c' p')
      then have "MovingTimer_entity dt e s =
          Inr (s\<lparr>TargetMovingComponent := (TargetMovingComponent s)(e \<mapsto> c'),
                 Transform := (Transform s)(e \<mapsto> tr\<lparr>position := p'\<rparr>)\<rparr>)"
        using same by (simp add: MovingTimer_entity_busy)
      then show ?thesis using se busy s' by simp
    qed
  qed
qed

lemma MovingTimer_tick:
  assumes "engine_ok s" "targets_ready s"
    and "TargetMovingComponent s e = Some c" "isActive c" "isProcessing c"
  shows "\<exists>tr c' p'. Transform s e = Some tr \<and> MovingTimer_move dt c (position tr) = Inr (c', p') \<and>
           fst (MovingTimer dt s) = None \<and>
           TargetMovingComponent (snd (MovingTimer dt s)) e = Some c' \<and>
           Transform (snd (MovingTimer dt s)) e = Some (tr\<lparr>position := p'\<rparr>)"
proof -
  let ?es = "engine_getEntitiesWith (TargetMovingComponent s) s"
  have mem: "e \<in> set ?es"
    using assms(1,3) by (force simp: engine_getEntitiesWith_def engine_ok_def not_le[symmetric])
  have dist: "distinct ?es" by (simp add: engine_getEntitiesWith_def)
  have ret: "fst (MovingTimer_loop dt ?es s) = None"
    using MovingTimer_loop_returns[OF assms(2), of ?es dt] by (simp add: engine_getEntitiesWith_def)
  from MovingTimer_loop_effect[OF dist mem ret] obtain se where
    se: "MovingTimer_entity dt e s = Inr se"
      "TargetMovingComponent (snd (MovingTimer_loop dt ?es s)) e = TargetMovingComponent se e"
      "Transform (snd (MovingTimer_loop dt ?es s)) e = Transform se e" by blast
  from se(1) show ?thesis
  proof (cases rule: MovingTimer_entity_cases)
    case (idle c0)
    then show ?thesis using assms by simp
  next
    case (busy c0 tr c' p')
    then show ?thesis using assms se ret by (auto simp: MovingTimer_def)
  qed
qed

text \<open>The check for destination in terms of the real distances. A distance passes the
  comparison with the double \<open>0.05\<close> when it is below the midpoint under that double: the
  midpoint itself rounds up to it, its significand being even. A distance passes the
  comparison with the double \<open>0.02\<close> when it is at most the midpoint under that double:
  this midpoint rounds down, the significand of the double \<open>0.02\<close> being odd.\<close>

lemma near_0_05:
  "Math_abs (Fin a - Fin b) < rnd 0.05 \<longleftrightarrow> \<bar>a - b\<bar> < 14411518807585587 / 2 ^ 58"
proof -
  have "Math_abs (Fin a - Fin b) = rnd \<bar>a - b\<bar>" by (simp add: Math_abs_rnd)
  moreover have "rnd 0.05 = Fin (of_int 7205759403792794 * pow2 (- 5 - 52))"
    by (subst rnd_0_05) (simp add: pow2_def)
  moreover have "rnd \<bar>a - b\<bar> < Fin (of_int 7205759403792794 * pow2 (- 5 - 52)) \<longleftrightarrow>
      \<bar>a - b\<bar> / pow2 (- 5 - 52) < of_int 7205759403792794 - 1 / 2 \<or>
      (\<bar>a - b\<bar> / pow2 (- 5 - 52) = of_int 7205759403792794 - 1 / 2 \<and> odd (7205759403792794 :: int))"
    by (rule rnd_less_iff) simp_all
  ultimately show ?thesis by (simp add: pow2_def field_simps)
qed

lemma near_0_02:
  "Math_abs (Fin a - Fin b) < rnd 0.02 \<longleftrightarrow> \<bar>a - b\<bar> \<le> 11529215046068469 / 2 ^ 59"
proof -
  have "Math_abs (Fin a - Fin b) = rnd \<bar>a - b\<bar>" by (simp add: Math_abs_rnd)
  moreover have "rnd 0.02 = Fin (of_int 5764607523034235 * pow2 (- 6 - 52))"
    by (subst rnd_0_02) (simp add: pow2_def)
  moreover have "rnd \<bar>a - b\<bar> < Fin (of_int 5764607523034235 * pow2 (- 6 - 52)) \<longleftrightarrow>
      \<bar>a - b\<bar> / pow2 (- 6 - 52) < of_int 5764607523034235 - 1 / 2 \<or>
      (\<bar>a - b\<bar> / pow2 (- 6 - 52) = of_int 5764607523034235 - 1 / 2 \<and> odd (5764607523034235 :: int))"
    by (rule rnd_less_iff) simp_all
  ultimately show ?thesis by (simp add: pow2_def field_simps) linarith
qed

lemma arrived_exact:
  "arrived \<lparr>x = Fin px, y = Fin py, z = Fin pz\<rparr> \<lparr>x = Fin wx, y = Fin wy, z = Fin wz\<rparr> \<longleftrightarrow>
     \<bar>px - wx\<bar> < 14411518807585587 / 2 ^ 58 \<and> \<bar>py - wy\<bar> < 14411518807585587 / 2 ^ 58 \<and>
     \<bar>pz - wz\<bar> \<le> 11529215046068469 / 2 ^ 59"
  by (simp only: arrived_def Vector3.select_convs near_0_05 near_0_02)

lemma translate_zero:
  "normal c = Vector3_Zero \<Longrightarrow> isFinite (dt * speed c) \<Longrightarrow> is_double_vector p \<Longrightarrow>
   translate dt c p = p"
  by (simp add: translate_def Vector3_Zero_def is_double_vector_def times_zero is_double_add_zero)

lemma zero_direction_stuck:
  assumes c: "TargetMovingComponent s e = Some c" and n: "normal c = Vector3_Zero"
    and tr: "Transform s e = Some tr" and v: "is_double_vector (position tr)"
    and far: "\<forall>w. waypoint_at c = Inr w \<longrightarrow> \<not> arrived (position tr) w"
    and dts: "\<forall>dt\<in>set dts. isFinite (dt * speed c)"
  shows "Transform (run_ticks dts s) e = Some tr \<and> TargetMovingComponent (run_ticks dts s) e = Some c"
proof -
  let ?P = "\<lambda>s'. Transform s' e = Some tr \<and> TargetMovingComponent s' e = Some c"
  have step: "?P s2" if "dt \<in> set dts" "?P s1" "MovingTimer_entity dt e' s1 = Inr s2" for dt e' s1 s2
  proof (cases "e' = e")
    case False
    then show ?thesis using MovingTimer_entity_other[OF that(3), of e] that(2) by simp
  next
    case True
    from that(1) dts have d: "isFinite (dt * speed c)" by auto
    from that(3) show ?thesis
    proof (cases rule: MovingTimer_entity_cases)
      case (idle c0)
      then show ?thesis using that(2) by simp
    next
      case (busy c0 tr0 c' p')
      then have eq: "c0 = c" "tr0 = tr" using that(2) True by simp_all
      from busy(5) far have "c' = c" "p' = translate dt c (position tr)"
        unfolding eq by (auto simp: MovingTimer_move_def then_do_eq_Inr split: if_splits)
      then have "c' = c" "p' = position tr" using translate_zero[OF n d v] by simp_all
      then show ?thesis using busy(6) eq(2) True that(2) by simp
    qed
  qed
  have "?P (run_ticks dts s)"
  proof (rule run_ticks_invariant[where P = ?P])
    show "?P s" using c tr by simp
  next
    fix dt e' s1 s2
    assume "dt \<in> set dts" "?P s1" "MovingTimer_entity dt e' s1 = Inr s2"
    then show "?P s2" by (rule step)
  qed
  then show ?thesis .
qed

lemma targets_ready_waypoint:
  "targets_ready s \<Longrightarrow> TargetMovingComponent s e = Some c \<Longrightarrow> isActive c \<Longrightarrow> isProcessing c \<Longrightarrow>
   waypoint_at c = Inr (waypoints c ! nat (indexCur c)) \<and> 0 \<le> indexCur c \<and>
   indexCur c < int (length (waypoints c))"
  by (auto simp: targets_ready_def waypoint_at_def)

subsection \<open>The operations of the pool\<close>

lemma same_elsewhere_engine_ok: "same_elsewhere e s s' \<Longrightarrow> engine_ok s \<Longrightarrow> engine_ok s'"
  unfolding same_elsewhere_def engine_ok_def by metis

lemma same_elsewhere_has_state: "same_elsewhere e s s' \<Longrightarrow> has_state k s' e' = has_state k s e'"
  unfolding same_elsewhere_def has_state_def by (cases k; cases "e' = e") auto

lemma same_elsewhere_Transform: "same_elsewhere e s s' \<Longrightarrow> Transform s' e' = None \<longleftrightarrow> Transform s e' = None"
  unfolding same_elsewhere_def by (cases "e' = e") auto

lemma same_elsewhere_active: "same_elsewhere e s s' \<Longrightarrow> e' \<noteq> e \<Longrightarrow> active k s' e' = active k s e'"
  unfolding same_elsewhere_def active_def by (cases k) auto

lemma same_elsewhere_bucket: "same_elsewhere e s s' \<Longrightarrow> bucket k s' = bucket k s"
  unfolding same_elsewhere_def bucket_def by simp

lemma same_elsewhere_pool_ok:
  assumes "same_elsewhere e s s'" "pool_ok s"
  shows "pool_ok s'"
  using assms same_elsewhere_engine_ok[OF assms(1)]
  unfolding pool_ok_def
  by (simp add: same_elsewhere_bucket[OF assms(1)] same_elsewhere_has_state[OF assms(1)]
      same_elsewhere_Transform[OF assms(1)]) (simp add: same_elsewhere_def)


lemma Vector3_copy [simp]: "\<lparr>x = x (v::Vector3), y = y v, z = z v\<rparr> = v"
  by simp

lemma Enable_effect:
  assumes "has_state k s e" "Transform s e = Some tr" "type td = k"
  shows "\<exists>s'. Enable e td s = Inr (e, s') \<and> same_elsewhere e s s' \<and> active k s' e \<and>
           Transform s' e = Some (tr\<lparr>position := pos td, scale := \<lparr>x = Fin 1, y = Fin 1, z = Fin 1\<rparr>\<rparr>)"
proof (cases k)
  case STATIC
  with assms obtain c where "TargetStaticComponent s e = Some c" by (auto simp: has_state_def)
  then show ?thesis using assms STATIC
    by (simp add: Enable_def same_elsewhere_def active_def)
next
  case MOVING
  with assms obtain c where "TargetMovingComponent s e = Some c" by (auto simp: has_state_def)
  then show ?thesis using assms MOVING
    by (simp add: Enable_def same_elsewhere_def active_def)
qed


lemma Create_reuse_none:
  "\<forall>e\<in>set es. active (type td) s e \<Longrightarrow> Create_reuse td es s = Inr None"
  by (induction es) (auto simp: active_def split: TARGET_TYPE.splits option.splits)

lemma Create_reuse_first:
  assumes "\<forall>e'\<in>set pre. active (type td) s e'" "has_state (type td) s e" "\<not> active (type td) s e"
  shows "Create_reuse td (pre @ e # post) s = then_do (Enable e td s) (\<lambda>r. Inr (Some r))"
  using assms(1)
proof (induction pre)
  case Nil
  show ?case using assms(2,3)
    by (cases "Enable e td s") (auto simp: active_def has_state_def split: TARGET_TYPE.splits option.splits)
next
  case (Cons a pre)
  then show ?case
    by (auto simp: active_def split: TARGET_TYPE.splits option.splits)
qed

lemma pool_ok_bucket_index: "pool_ok s \<Longrightarrow> TARGET_TYPE_value k < length (pooledObjects s)"
  by (cases k) (simp_all add: pool_ok_def)

lemma pool_ok_fresh:
  assumes "pool_ok s"
  shows "gone (nextEntity s) s" and "nextEntity s \<notin> set (bucket k s)"
proof -
  show g: "gone (nextEntity s) s" using assms by (simp add: pool_ok_def engine_ok_def gone_def)
  show "nextEntity s \<notin> set (bucket k s)"
  proof
    assume "nextEntity s \<in> set (bucket k s)"
    then have "Transform s (nextEntity s) \<noteq> None" using assms by (auto simp: pool_ok_def)
    then show False using g by (simp add: gone_def)
  qed
qed

lemma Create_recycles:
  assumes ok: "pool_ok s" and b: "bucket k s = pre @ e # post"
    and pre: "\<forall>e'\<in>set pre. active k s e'" and e: "\<not> active k s e" and k: "type td = k"
  shows "\<exists>s' tr. Create td s = Inr (e, s') \<and> same_elsewhere e s s' \<and> active k s' e \<and>
           Transform s' e = Some tr \<and> position tr = pos td"
proof -
  have "e \<in> set (bucket k s)" using b by simp
  then have st: "has_state k s e" and "Transform s e \<noteq> None" using ok by (auto simp: pool_ok_def)
  then obtain tr where tr: "Transform s e = Some tr" by auto
  from Enable_effect[OF st tr k] obtain s' where
    s': "Enable e td s = Inr (e, s')" "same_elsewhere e s s'" "active k s' e"
      "Transform s' e = Some (tr\<lparr>position := pos td, scale := \<lparr>x = Fin 1, y = Fin 1, z = Fin 1\<rparr>\<rparr>)"
    by blast
  have "Create_reuse td (pooledObjects s ! TARGET_TYPE_value (type td)) s = Inr (Some (e, s'))"
    using Create_reuse_first[of pre td s e post] pre e st k b s'(1) by (simp add: bucket_def)
  then have "Create td s = Inr (e, s')"
    using pool_ok_bucket_index[OF ok, of k] k by (simp add: Create_def)
  then show ?thesis using s' by simp
qed

lemma Create_allocates:
  assumes ok: "pool_ok s" and all: "\<forall>e\<in>set (bucket k s). active k s e" and k: "type td = k"
  shows "\<exists>s'. Create td s = Inr (nextEntity s, s') \<and>
           nextEntity s' = Suc (nextEntity s) \<and>
           pooledObjects s' = (pooledObjects s)[TARGET_TYPE_value k := bucket k s @ [nextEntity s]] \<and>
           Transform s' = (Transform s)(nextEntity s \<mapsto> \<lparr>position = pos td, scale = Vector3_One\<rparr>) \<and>
           GltfContainer s' = (GltfContainer s)(nextEntity s \<mapsto>
              \<lparr>src = MODEL_TARGET_OBJECT, visibleMeshesCollisionMask = Some CL_POINTER,
               invisibleMeshesCollisionMask = None\<rparr>) \<and>
           (case k of
              STATIC \<Rightarrow>
                TargetStaticComponent s' = (TargetStaticComponent s)
                  (nextEntity s \<mapsto> \<lparr>TargetStaticComponentData.isActive = True\<rparr>) \<and>
                TargetMovingComponent s' = TargetMovingComponent s
            | MOVING \<Rightarrow>
                TargetMovingComponent s' = (TargetMovingComponent s)
                  (nextEntity s \<mapsto> TargetMovingComponent_schema_default\<lparr>isActive := True, isProcessing := False\<rparr>) \<and>
                TargetStaticComponent s' = TargetStaticComponent s)"
proof -
  have none: "Create_reuse td (pooledObjects s ! TARGET_TYPE_value (type td)) s = Inr None"
    using Create_reuse_none[of "bucket k s" td s] all k by (simp add: bucket_def)
  note g = pool_ok_fresh(1)[OF ok, unfolded gone_def]
  note i = pool_ok_bucket_index[OF ok, of k]
  show ?thesis
    using none g i k
    by (cases k)
       (simp_all add: Create_def Create_new_def engine_addEntity_def component_create_def bucket_def)
qed

lemma Create_allocates_ok:
  assumes ok: "pool_ok s" and all: "\<forall>e\<in>set (bucket k s). active k s e" and k: "type td = k"
  shows "\<exists>s' tr. Create td s = Inr (nextEntity s, s') \<and> pool_ok s' \<and>
           bucket k s' = bucket k s @ [nextEntity s] \<and>
           (\<forall>k'. k' \<noteq> k \<longrightarrow> bucket k' s' = bucket k' s) \<and>
           (\<forall>k' e'. e' \<noteq> nextEntity s \<longrightarrow> active k' s' e' = active k' s e') \<and>
           active k s' (nextEntity s) \<and>
           Transform s' (nextEntity s) = Some tr \<and> position tr = pos td"
proof -
  let ?e = "nextEntity s"
  from Create_allocates[OF assms] obtain s' where
    c: "Create td s = Inr (?e, s')" and
    n: "nextEntity s' = Suc ?e" and
    p: "pooledObjects s' = (pooledObjects s)[TARGET_TYPE_value k := bucket k s @ [?e]]" and
    t: "Transform s' = (Transform s)(?e \<mapsto> \<lparr>position = pos td, scale = Vector3_One\<rparr>)" and
    g: "GltfContainer s' = (GltfContainer s)(?e \<mapsto>
              \<lparr>src = MODEL_TARGET_OBJECT, visibleMeshesCollisionMask = Some CL_POINTER,
               invisibleMeshesCollisionMask = None\<rparr>)" and
    m: "(case k of
              STATIC \<Rightarrow>
                TargetStaticComponent s' = (TargetStaticComponent s)
                  (?e \<mapsto> \<lparr>TargetStaticComponentData.isActive = True\<rparr>) \<and>
                TargetMovingComponent s' = TargetMovingComponent s
            | MOVING \<Rightarrow>
                TargetMovingComponent s' = (TargetMovingComponent s)
                  (?e \<mapsto> TargetMovingComponent_schema_default\<lparr>isActive := True, isProcessing := False\<rparr>) \<and>
                TargetStaticComponent s' = TargetStaticComponent s)"
    by blast
  note i = pool_ok_bucket_index[OF ok]
  have len: "length (pooledObjects s) = 2" using ok by (simp add: pool_ok_def)
  have bk: "bucket k s' = bucket k s @ [?e]" using p i[of k] by (simp add: bucket_def)
  have bo: "bucket k' s' = bucket k' s" if "k' \<noteq> k" for k'
    using p that by (cases k; cases k') (simp_all add: bucket_def)
  have act: "active k' s' e' = active k' s e'" if "e' \<noteq> ?e" for k' e'
    using m that by (cases k; cases k') (simp_all add: active_def)
  have acte: "active k s' ?e" using m by (cases k) (simp_all add: active_def)
  have hs: "has_state k' s e' \<Longrightarrow> has_state k' s' e'" for k' e'
    using m by (cases k; cases k') (auto simp: has_state_def)
  have hse: "has_state k s' ?e" using m by (cases k) (simp_all add: has_state_def)
  have eng: "engine_ok s'"
    using ok n t g m by (cases k) (simp_all add: pool_ok_def engine_ok_def)
  have inv: "has_state k' s' e' \<and> Transform s' e' \<noteq> None" if "e' \<in> set (bucket k' s')" for k' e'
  proof (cases "k' = k")
    case True
    then show ?thesis using that bk hs hse ok t by (auto simp: pool_ok_def)
  next
    case False
    then show ?thesis using that bo hs ok t by (auto simp: pool_ok_def)
  qed
  have "pool_ok s'" using inv eng p len by (simp add: pool_ok_def)
  then show ?thesis using c bk bo act acte t by simp
qed

text \<open>After any \<open>Create\<close> on a well-formed pool: the returned target is active, at the
  requested position, and the first entry of its bucket that is the returned handle has
  only active targets before it.\<close>

lemma Create_ok:
  assumes ok: "pool_ok s" and k: "type td = k"
  shows "\<exists>e s' pre post tr. Create td s = Inr (e, s') \<and> pool_ok s' \<and>
           bucket k s' = pre @ e # post \<and> (\<forall>e'\<in>set pre. active k s' e' \<and> e' \<noteq> e) \<and>
           active k s' e \<and> Transform s' e = Some tr \<and> position tr = pos td"
proof (cases "\<forall>e\<in>set (bucket k s). active k s e")
  case True
  from Create_allocates_ok[OF ok True k] obtain s' tr where
    s': "Create td s = Inr (nextEntity s, s')" "pool_ok s'"
      "bucket k s' = bucket k s @ [nextEntity s]"
      "\<forall>k' e'. e' \<noteq> nextEntity s \<longrightarrow> active k' s' e' = active k' s e'"
      "active k s' (nextEntity s)" "Transform s' (nextEntity s) = Some tr" "position tr = pos td"
    by blast
  have "\<forall>e'\<in>set (bucket k s). active k s' e' \<and> e' \<noteq> nextEntity s"
    using True s'(4) pool_ok_fresh(2)[OF ok, of k] by metis
  with s'(1,2,3,5,6,7) have "Create td s = Inr (nextEntity s, s') \<and> pool_ok s' \<and>
           bucket k s' = bucket k s @ nextEntity s # [] \<and>
           (\<forall>e'\<in>set (bucket k s). active k s' e' \<and> e' \<noteq> nextEntity s) \<and>
           active k s' (nextEntity s) \<and> Transform s' (nextEntity s) = Some tr \<and> position tr = pos td"
    by simp
  then show ?thesis by blast
next
  case False
  then have "\<exists>e\<in>set (bucket k s). \<not> active k s e" by simp
  from split_list_first_prop[OF this] obtain pre e post where
    b: "bucket k s = pre @ e # post" and e: "\<not> active k s e" and pre: "\<forall>e'\<in>set pre. \<not> \<not> active k s e'"
    by blast
  from pre have pre': "\<forall>e'\<in>set pre. active k s e'" by simp
  from Create_recycles[OF ok b pre' e k] obtain s' tr where
    s': "Create td s = Inr (e, s')" "same_elsewhere e s s'" "active k s' e"
      "Transform s' e = Some tr" "position tr = pos td" by blast
  have ne: "\<forall>e'\<in>set pre. e' \<noteq> e" using pre' e by auto
  then have "\<forall>e'\<in>set pre. active k s' e' \<and> e' \<noteq> e"
    using pre' same_elsewhere_active[OF s'(2)] by simp
  with s' b same_elsewhere_pool_ok[OF s'(2) ok] same_elsewhere_bucket[OF s'(2), of k]
  have "Create td s = Inr (e, s') \<and> pool_ok s' \<and>
           bucket k s' = pre @ e # post \<and> (\<forall>e'\<in>set pre. active k s' e' \<and> e' \<noteq> e) \<and>
           active k s' e \<and> Transform s' e = Some tr \<and> position tr = pos td"
    by simp
  then show ?thesis by blast
qed

lemma quieter_refl: "quieter s s"
  by (auto simp: quieter_def split: option.splits)

lemma quieter_trans:
  assumes "quieter s s1" "quieter s1 s2"
  shows "quieter s s2"
  unfolding quieter_def
proof (intro conjI allI)
  fix e
  show "Transform s2 e = None \<longleftrightarrow> Transform s e = None"
    using assms by (simp add: quieter_def)
  show "case TargetStaticComponent s e of
             None \<Rightarrow> TargetStaticComponent s2 e = None
           | Some c \<Rightarrow> (\<exists>c'. TargetStaticComponent s2 e = Some c' \<and>
                          (TargetStaticComponentData.isActive c' \<longrightarrow> TargetStaticComponentData.isActive c))"
    using assms[unfolded quieter_def, THEN conjunct2, THEN conjunct2, THEN conjunct2, THEN spec, of e]
    by (auto split: option.splits)
  show "case TargetMovingComponent s e of
             None \<Rightarrow> TargetMovingComponent s2 e = None
           | Some c \<Rightarrow> (\<exists>c'. TargetMovingComponent s2 e = Some c' \<and>
                          (isActive c' \<longrightarrow> isActive c) \<and> (isProcessing c' \<longrightarrow> isProcessing c))"
    using assms[unfolded quieter_def, THEN conjunct2, THEN conjunct2, THEN conjunct2, THEN spec, of e]
    by (auto split: option.splits)
qed (use assms in \<open>simp_all add: quieter_def\<close>)

lemma quieter_switched_off: "quieter s s' \<Longrightarrow> switched_off i s e \<Longrightarrow> switched_off i s' e"
  unfolding quieter_def switched_off_def
  by (auto split: option.splits dest!: spec[of _ e])

lemma quieter_can_disable: "quieter s s' \<Longrightarrow> can_disable i s e \<Longrightarrow> can_disable i s' e"
  unfolding quieter_def can_disable_def
  by (auto split: option.splits dest!: spec[of _ e])

lemma Disable_quieter:
  assumes "can_disable i s e"
  shows "\<exists>s'. Disable e i s = Inr s' \<and> quieter s s' \<and> switched_off i s' e"
proof -
  from assms obtain tr where tr: "Transform s e = Some tr" by (auto simp: can_disable_def)
  consider (static) "i = 0" | (moving) "i = 1" | (other) "i \<noteq> 0" "i \<noteq> 1" by blast
  then show ?thesis
  proof cases
    case static
    with assms obtain c where "TargetStaticComponent s e = Some c" by (auto simp: can_disable_def)
    then show ?thesis using static tr
      by (auto simp: Disable_def quieter_def switched_off_def split: option.splits)
  next
    case moving
    with assms obtain c where "TargetMovingComponent s e = Some c" by (auto simp: can_disable_def)
    then show ?thesis using moving tr
      by (auto simp: Disable_def quieter_def switched_off_def split: option.splits)
  next
    case other
    then show ?thesis using tr
      by (auto simp: Disable_def quieter_def switched_off_def split: option.splits)
  qed
qed

lemma DisableAll_bucket_effect:
  "\<forall>e\<in>set es. can_disable i s e \<Longrightarrow>
   \<exists>s'. DisableAll_bucket i es s = Inr s' \<and> quieter s s' \<and> (\<forall>e\<in>set es. switched_off i s' e)"
proof (induction es arbitrary: s)
  case Nil
  then show ?case by (simp add: quieter_refl)
next
  case (Cons e es)
  then have "can_disable i s e" by simp
  from Disable_quieter[OF this] obtain s1 where
    s1: "Disable e i s = Inr s1" "quieter s s1" "switched_off i s1 e" by blast
  have "\<forall>e\<in>set es. can_disable i s1 e"
    using Cons.prems quieter_can_disable[OF s1(2)] by simp
  from Cons.IH[OF this] obtain s' where
    s': "DisableAll_bucket i es s1 = Inr s'" "quieter s1 s'" "\<forall>e\<in>set es. switched_off i s' e" by blast
  have "switched_off i s' e" using quieter_switched_off[OF s'(2) s1(3)] .
  then show ?case using s1 s' quieter_trans[OF s1(2) s'(2)] by simp
qed

lemma pool_ok_can_disable:
  "pool_ok s \<Longrightarrow> e \<in> set (bucket k s) \<Longrightarrow> can_disable (TARGET_TYPE_value k) s e"
  by (cases k) (auto simp: pool_ok_def can_disable_def has_state_def split: TARGET_TYPE.splits)

lemma pool_ok_buckets: "pool_ok s \<Longrightarrow> pooledObjects s = [bucket STATIC s, bucket MOVING s]"
  by (cases "pooledObjects s"; cases "tl (pooledObjects s)") (auto simp: pool_ok_def bucket_def)

lemma DisableAll_effect:
  assumes ok: "pool_ok s"
  shows "\<exists>s'. DisableAll s = Inr s' \<and> quieter s s' \<and>
           (\<forall>e\<in>set (bucket STATIC s). switched_off 0 s' e) \<and>
           (\<forall>e\<in>set (bucket MOVING s). switched_off 1 s' e)"
proof -
  have "\<forall>e\<in>set (bucket STATIC s). can_disable 0 s e"
    using pool_ok_can_disable[OF ok, of _ STATIC] by simp
  from DisableAll_bucket_effect[OF this] obtain s1 where
    s1: "DisableAll_bucket 0 (bucket STATIC s) s = Inr s1" "quieter s s1"
      "\<forall>e\<in>set (bucket STATIC s). switched_off 0 s1 e" by blast
  have "\<forall>e\<in>set (bucket MOVING s). can_disable 1 s1 e"
    using pool_ok_can_disable[OF ok, of _ MOVING] quieter_can_disable[OF s1(2)] by simp
  from DisableAll_bucket_effect[OF this] obtain s2 where
    s2: "DisableAll_bucket 1 (bucket MOVING s) s1 = Inr s2" "quieter s1 s2"
      "\<forall>e\<in>set (bucket MOVING s). switched_off 1 s2 e" by blast
  have "DisableAll s = Inr s2"
    using s1(1) s2(1) by (simp add: DisableAll_def pool_ok_buckets[OF ok])
  moreover have "\<forall>e\<in>set (bucket STATIC s). switched_off 0 s2 e"
    using s1(3) quieter_switched_off[OF s2(2)] by blast
  ultimately show ?thesis using s2(3) quieter_trans[OF s1(2) s2(2)] by blast
qed

lemma DestroyAll_loop_pool:
  "i \<le> length (pooledObjects s) \<Longrightarrow>
   pooledObjects (DestroyAll_loop i s) =
     take i (pooledObjects s) @ replicate (length (pooledObjects s) - i) []"
proof (induction i s rule: DestroyAll_loop.induct)
  case (1 i s)
  show ?case
  proof (cases "i < length (pooledObjects s)")
    case False
    then have "DestroyAll_loop i s = s" by (subst DestroyAll_loop.simps) simp
    then show ?thesis using "1.prems" False by simp
  next
    case inside: True
    show ?thesis
    proof (cases "0 < length (pooledObjects s ! i)")
      case True
      let ?s = "Destroy (last (pooledObjects s ! i))
                  (s\<lparr>pooledObjects := (pooledObjects s)[i := butlast (pooledObjects s ! i)]\<rparr>)"
      have p: "pooledObjects ?s = (pooledObjects s)[i := butlast (pooledObjects s ! i)]"
        by (simp add: Destroy_def engine_removeEntity_def)
      have "pooledObjects (DestroyAll_loop i ?s) =
              take i (pooledObjects ?s) @ replicate (length (pooledObjects ?s) - i) []"
        using "1.IH"(1)[OF inside True] "1.prems" p by simp
      then show ?thesis using inside True p by (simp add: DestroyAll_loop.simps[of i s])
    next
      case False
      then have nil: "pooledObjects s ! i = []" by simp
      have "pooledObjects (DestroyAll_loop (i + 1) s) =
              take (i + 1) (pooledObjects s) @ replicate (length (pooledObjects s) - (i + 1)) []"
        using "1.IH"(2)[OF inside False] inside by simp
      moreover have "take (i + 1) (pooledObjects s) = take i (pooledObjects s) @ [[]]"
        using inside nil by (simp add: take_Suc_conv_app_nth)
      moreover have "replicate (length (pooledObjects s) - i) ([]::Entity list) =
                       [] # replicate (length (pooledObjects s) - (i + 1)) []"
        using inside by (cases "length (pooledObjects s) - i") auto
      ultimately show ?thesis using inside False by (simp add: DestroyAll_loop.simps[of i s])
    qed
  qed
qed

lemma Destroy_gone: "gone e (Destroy e s)"
  by (simp add: gone_def Destroy_def engine_removeEntity_def)

lemma Destroy_keeps_gone: "gone e s \<Longrightarrow> gone e (Destroy e' s)"
  by (simp add: gone_def Destroy_def engine_removeEntity_def)

lemma Destroy_pool: "pooledObjects (Destroy e s) = pooledObjects s"
  by (simp add: Destroy_def engine_removeEntity_def)

lemma gone_pool_update: "gone e (s\<lparr>pooledObjects := p\<rparr>) = gone e s"
  by (simp add: gone_def)

lemma DestroyAll_loop_keeps_gone: "gone e s \<Longrightarrow> gone e (DestroyAll_loop i s)"
proof (induction i s rule: DestroyAll_loop.induct)
  case (1 i s)
  show ?case
  proof (cases "i < length (pooledObjects s)")
    case False
    then have "DestroyAll_loop i s = s" by (subst DestroyAll_loop.simps) simp
    then show ?thesis using "1.prems" by simp
  next
    case inside: True
    show ?thesis
    proof (cases "0 < length (pooledObjects s ! i)")
      case True
      then show ?thesis
        using "1.IH"(1)[OF inside True] "1.prems" inside
        by (simp add: DestroyAll_loop.simps[of i s] Destroy_keeps_gone gone_pool_update)
    next
      case False
      then show ?thesis
        using "1.IH"(2)[OF inside False] "1.prems" inside
        by (simp add: DestroyAll_loop.simps[of i s])
    qed
  qed
qed

lemma DestroyAll_loop_gone:
  "i \<le> j \<Longrightarrow> j < length (pooledObjects s) \<Longrightarrow> e \<in> set (pooledObjects s ! j) \<Longrightarrow>
   gone e (DestroyAll_loop i s)"
proof (induction i s rule: DestroyAll_loop.induct)
  case (1 i s)
  from "1.prems" have inside: "i < length (pooledObjects s)" by simp
  show ?case
  proof (cases "0 < length (pooledObjects s ! i)")
    case True
    let ?b = "pooledObjects s ! i"
    let ?s = "Destroy (last ?b) (s\<lparr>pooledObjects := (pooledObjects s)[i := butlast ?b]\<rparr>)"
    have p: "pooledObjects ?s = (pooledObjects s)[i := butlast ?b]"
      by (simp add: Destroy_pool)
    have unfold: "DestroyAll_loop i s = DestroyAll_loop i ?s"
      using inside True by (simp add: DestroyAll_loop.simps[of i s])
    show ?thesis
    proof (cases "j = i \<and> e = last ?b")
      case True
      then have "gone e ?s" by (simp add: Destroy_gone)
      then show ?thesis using unfold DestroyAll_loop_keeps_gone by simp
    next
      case False
      have "e \<in> set (pooledObjects ?s ! j)"
      proof (cases "j = i")
        case True
        with False have "e \<noteq> last ?b" by simp
        moreover have "?b = butlast ?b @ [last ?b]" using \<open>0 < length ?b\<close> by simp
        ultimately have "e \<in> set (butlast ?b)"
          using "1.prems"(3) True by (metis Un_iff empty_iff empty_set insert_iff list.simps(15) set_append)
        then show ?thesis using p True inside by simp
      next
        case False
        then show ?thesis using p "1.prems" by simp
      qed
      then have "gone e (DestroyAll_loop i ?s)"
        using "1.IH"(1)[OF inside True "1.prems"(1)] "1.prems"(2) p by simp
      then show ?thesis using unfold by simp
    qed
  next
    case False
    then have "pooledObjects s ! i = []" by simp
    then have "j \<noteq> i" using "1.prems"(3) by auto
    then have "i + 1 \<le> j" using "1.prems"(1) by simp
    from "1.IH"(2)[OF inside False this "1.prems"(2,3)]
    show ?thesis using inside False by (simp add: DestroyAll_loop.simps[of i s])
  qed
qed

lemma DestroyAll_effect:
  "pooledObjects (DestroyAll s) = replicate (length (pooledObjects s)) [] \<and>
   (\<forall>b\<in>set (pooledObjects s). \<forall>e\<in>set b. gone e (DestroyAll s))"
proof -
  have "gone e (DestroyAll s)" if "b \<in> set (pooledObjects s)" "e \<in> set b" for b e
  proof -
    from that(1) obtain j where "j < length (pooledObjects s)" "pooledObjects s ! j = b"
      by (auto simp: in_set_conv_nth)
    then show ?thesis using DestroyAll_loop_gone[of 0 j s e] that(2) by (simp add: DestroyAll_def)
  qed
  then show ?thesis using DestroyAll_loop_pool[of 0 s] by (simp add: DestroyAll_def)
qed

lemma bucket_initial: "bucket k initial = []"
  by (cases k) (simp_all add: bucket_def initial_def)

lemma pool_ok_initial: "pool_ok initial"
  by (simp add: pool_ok_def bucket_initial) (simp add: engine_ok_def initial_def)

lemma all_TARGET_TYPE: "(\<forall>k. P k) \<longleftrightarrow> P STATIC \<and> P MOVING"
  by (metis TARGET_TYPE.exhaust)

lemma pool_ok_iff:
  "pool_ok s \<longleftrightarrow>
     length (pooledObjects s) = 2 \<and>
     (\<forall>e\<in>set (pooledObjects s ! 0). TargetStaticComponent s e \<noteq> None \<and> Transform s e \<noteq> None) \<and>
     (\<forall>e\<in>set (pooledObjects s ! 1). TargetMovingComponent s e \<noteq> None \<and> Transform s e \<noteq> None) \<and>
     engine_ok s"
  by (simp add: pool_ok_def all_TARGET_TYPE bucket_def has_state_def)

lemma Destroy_pool_update:
  "Destroy e (s\<lparr>pooledObjects := p\<rparr>) = (Destroy e s)\<lparr>pooledObjects := p\<rparr>"
  by (simp add: Destroy_def engine_removeEntity_def)

lemma fold_Destroy_pool_update:
  "fold Destroy es (s\<lparr>pooledObjects := p\<rparr>) = (fold Destroy es s)\<lparr>pooledObjects := p\<rparr>"
  by (induction es arbitrary: s) (simp_all add: Destroy_pool_update)

text \<open>\<open>DestroyAll\<close> destroys the handles of the pool bucket after bucket, each bucket from
  its last handle to its first, and leaves every bucket empty.\<close>

lemma DestroyAll_loop_fold:
  "i \<le> length (pooledObjects s) \<Longrightarrow>
   DestroyAll_loop i s =
     (fold Destroy (concat (map rev (drop i (pooledObjects s)))) s)
       \<lparr>pooledObjects := take i (pooledObjects s) @ replicate (length (pooledObjects s) - i) []\<rparr>"
proof (induction i s rule: DestroyAll_loop.induct)
  case (1 i s)
  let ?P = "pooledObjects s"
  show ?case
  proof (cases "i < length ?P")
    case False
    then have "DestroyAll_loop i s = s" by (subst DestroyAll_loop.simps) simp
    then show ?thesis using "1.prems" False by simp
  next
    case inside: True
    let ?b = "?P ! i"
    have dr: "drop i ?P = ?b # drop (Suc i) ?P" using inside by (simp add: Cons_nth_drop_Suc)
    show ?thesis
    proof (cases "0 < length ?b")
      case True
      let ?s = "Destroy (last ?b) (s\<lparr>pooledObjects := ?P[i := butlast ?b]\<rparr>)"
      have p: "pooledObjects ?s = ?P[i := butlast ?b]" by (simp add: Destroy_pool)
      have unfold: "DestroyAll_loop i s = DestroyAll_loop i ?s"
        using inside True by (subst DestroyAll_loop.simps) simp
      have b: "?b = butlast ?b @ [last ?b]" using True by simp
      have rv: "rev ?b = last ?b # rev (butlast ?b)" by (subst b) simp
      have dr': "drop i (?P[i := butlast ?b]) = butlast ?b # drop (Suc i) ?P"
        using inside by (simp add: drop_update_swap[symmetric] Cons_nth_drop_Suc[symmetric] upd_conv_take_nth_drop)
      have "DestroyAll_loop i ?s =
          (fold Destroy (concat (map rev (drop i (pooledObjects ?s)))) ?s)
            \<lparr>pooledObjects := take i (pooledObjects ?s) @ replicate (length (pooledObjects ?s) - i) []\<rparr>"
        using "1.IH"(1)[OF inside True] "1.prems" p by simp
      also have "\<dots> =
          (fold Destroy (concat (map rev (drop i ?P))) s)
            \<lparr>pooledObjects := take i ?P @ replicate (length ?P - i) []\<rparr>"
        by (simp add: p dr dr' rv Destroy_pool_update fold_Destroy_pool_update)
      finally show ?thesis using unfold by simp
    next
      case False
      then have nil: "?b = []" by simp
      have "DestroyAll_loop i s = DestroyAll_loop (i + 1) s"
        using inside False by (subst DestroyAll_loop.simps) simp
      also have "\<dots> =
          (fold Destroy (concat (map rev (drop (i + 1) ?P))) s)
            \<lparr>pooledObjects := take (i + 1) ?P @ replicate (length ?P - (i + 1)) []\<rparr>"
        using "1.IH"(2)[OF inside False] inside by simp
      also have "take (i + 1) ?P = take i ?P @ [[]]"
        using inside nil by (simp add: take_Suc_conv_app_nth)
      also have "(take i ?P @ [[]]) @ replicate (length ?P - (i + 1)) ([]::Entity list) =
                 take i ?P @ replicate (length ?P - i) []"
        using inside by (cases "length ?P - i") auto
      finally show ?thesis by (simp add: dr nil)
    qed
  qed
qed

lemma two_idle_reachable:
  "\<exists>s1 s2. Create \<lparr>type = STATIC, pos = Vector3_Zero\<rparr> initial = Inr (0, s1) \<and>
           Create \<lparr>type = STATIC, pos = Vector3_Zero\<rparr> s1 = Inr (1, s2) \<and>
           DisableAll s2 = Inr two_idle"
  by (simp add: Create_def Create_new_def engine_addEntity_def component_create_def initial_def
        DisableAll_def Disable_def two_idle_def Vector3_Zero_def fun_upd_twist)

lemma demo_target_reachable:
  "\<exists>s1 c. Create \<lparr>type = MOVING, pos = \<lparr>x = Fin 11, y = Fin 1, z = Fin 20\<rparr>\<rparr> initial = Inr (0, s1) \<and>
          TargetMovingComponent s1 0 = Some c \<and>
          demo_target =
            s1\<lparr>TargetMovingComponent := (TargetMovingComponent s1)
                 (0 \<mapsto> c\<lparr>speed := rnd 1.2,
                         waypoints := [\<lparr>x = Fin 11, y = Fin 1, z = Fin 16\<rparr>,
                                       \<lparr>x = Fin 21, y = Fin 1, z = Fin 16\<rparr>],
                         isProcessing := True\<rparr>)\<rparr>"
  by (simp add: Create_def Create_new_def engine_addEntity_def component_create_def initial_def
        demo_target_def TargetMovingComponent_schema_default_def)

subsection \<open>Consistency of the pool is kept\<close>

text \<open>The consistency of the pool is kept by every operation of the module but
  \<open>Destroy\<close>, and by the ticks; \<open>DestroyAll\<close> establishes it again.\<close>

lemma quieter_pool_ok:
  assumes "quieter s s'" "pool_ok s"
  shows "pool_ok s'"
proof -
  have t: "Transform s' e = None \<longleftrightarrow> Transform s e = None" for e
    using assms(1) by (simp add: quieter_def)
  have st: "TargetStaticComponent s' e = None \<longleftrightarrow> TargetStaticComponent s e = None" for e
    using assms(1)[unfolded quieter_def, THEN conjunct2, THEN conjunct2, THEN conjunct2, THEN spec, of e]
    by (auto split: option.splits)
  have mv: "TargetMovingComponent s' e = None \<longleftrightarrow> TargetMovingComponent s e = None" for e
    using assms(1)[unfolded quieter_def, THEN conjunct2, THEN conjunct2, THEN conjunct2, THEN spec, of e]
    by (auto split: option.splits)
  have p: "pooledObjects s' = pooledObjects s" "nextEntity s' = nextEntity s"
    "GltfContainer s' = GltfContainer s"
    using assms(1) by (simp_all add: quieter_def)
  show ?thesis
    using assms(2) by (simp add: pool_ok_iff engine_ok_def t st mv p)
qed

lemma Create_pool_ok: "pool_ok s \<Longrightarrow> Create td s = Inr (e, s') \<Longrightarrow> pool_ok s'"
  using Create_ok[of s td "type td"] by auto

lemma Enable_pool_ok:
  assumes "pool_ok s" "Enable e td s = Inr (e', s')"
  shows "pool_ok s'"
proof -
  have "same_elsewhere e s s'"
    using assms(2)
    by (auto simp: Enable_def then_do_eq_Inr component_get_eq_Inr same_elsewhere_def
        split: TARGET_TYPE.splits)
  then show ?thesis using assms(1) by (rule same_elsewhere_pool_ok)
qed

lemma Disable_pool_ok:
  assumes "pool_ok s" "Disable e i s = Inr s'"
  shows "pool_ok s'"
proof -
  have "same_elsewhere e s s'"
    using assms(2)
    by (auto simp: Disable_def then_do_eq_Inr component_get_eq_Inr same_elsewhere_def
        split: if_splits)
  then show ?thesis using assms(1) by (rule same_elsewhere_pool_ok)
qed

lemma DisableAll_pool_ok: "pool_ok s \<Longrightarrow> DisableAll s = Inr s' \<Longrightarrow> pool_ok s'"
  using DisableAll_effect[of s] quieter_pool_ok[of s s'] by auto

lemma MovingTimer_entity_pool_ok:
  assumes "pool_ok s" "MovingTimer_entity dt e s = Inr s'"
  shows "pool_ok s'"
proof -
  note f = MovingTimer_entity_frame[OF assms(2)]
  show ?thesis using assms(1) by (simp add: pool_ok_iff engine_ok_def f)
qed

lemma MovingTimer_pool_ok: "pool_ok s \<Longrightarrow> pool_ok (snd (MovingTimer dt s))"
  unfolding MovingTimer_def
  by (rule MovingTimer_loop_invariant[where P = pool_ok]) (auto intro: MovingTimer_entity_pool_ok)

lemma run_ticks_pool_ok: "pool_ok s \<Longrightarrow> pool_ok (run_ticks dts s)"
  by (induction dts arbitrary: s) (simp_all add: MovingTimer_pool_ok)

lemma fold_Destroy_engine_ok: "engine_ok s \<Longrightarrow> engine_ok (fold Destroy es s)"
proof (induction es arbitrary: s)
  case Nil
  then show ?case by simp
next
  case (Cons e es)
  have "engine_ok (Destroy e s)"
    using Cons.prems by (simp add: engine_ok_def Destroy_def engine_removeEntity_def)
  then show ?case using Cons.IH by simp
qed

lemma DestroyAll_pool_ok:
  assumes "engine_ok s" "length (pooledObjects s) = 2"
  shows "pool_ok (DestroyAll s)"
proof -
  let ?t = "fold Destroy (concat (map rev (pooledObjects s))) s"
  have d: "DestroyAll s = ?t\<lparr>pooledObjects := replicate (length (pooledObjects s)) []\<rparr>"
    using DestroyAll_loop_fold[of 0 s] by (simp add: DestroyAll_def)
  have "engine_ok ?t" using assms(1) by (rule fold_Destroy_engine_ok)
  then have "engine_ok (DestroyAll s)" by (simp add: d engine_ok_def)
  then show ?thesis using assms(2) by (simp add: pool_ok_iff d numeral_2_eq_2)
qed

subsection \<open>Doubles of the examples\<close>

text \<open>The doubles that the decimals \<open>1.04\<close>, \<open>1.06\<close> and \<open>15.99\<close> denote, a product that
  stays finite, a product that overflows, and the double \<open>2^53\<close>.\<close>

lemma rnd_1_04: "rnd 1.04 = Fin (1170935903116329 / 2 ^ 50)"
  using rnd_normal[of 0 "1.04"] by (simp add: pow2_def round_even_def)

lemma rnd_1_06: "rnd 1.06 = Fin (2386907802506363 / 2 ^ 51)"
  using rnd_normal[of 0 "1.06"] by (simp add: pow2_def round_even_def)

lemma rnd_15_99: "rnd 15.99 = Fin (9001569755206779 / 2 ^ 49)"
  using rnd_normal[of 3 "15.99"] by (simp add: pow2_def round_even_def)

lemma isFinite_times: "\<bar>a * b\<bar> \<le> pow2 k \<Longrightarrow> k \<le> 1023 \<Longrightarrow> isFinite (Fin a * Fin b)"
  by (simp add: rnd_small)

lemma rnd_pow2_600_squared: "rnd (pow2 600 * pow2 600) = PInf"
proof -
  have "pow2 1024 \<le> pow2 (600 + 600)" by simp
  then have "pow2 1024 \<le> pow2 600 * pow2 600" by (simp only: pow2_add)
  then show ?thesis by (rule rnd_overflow)
qed

lemma is_double_pow2_600: "is_double (Fin (pow2 600))"
  using is_double_dyadic[of 1 600] by simp

lemma is_double_2_53: "is_double (Fin 9007199254740992)"
  using is_double_dyadic[of 4503599627370496 1] by (simp add: pow2_def)

section \<open>The properties\<close>



text \<open>
  C2 (no premature reuse), as the code has it. On a consistent pool, for either type and
  any two positions: \<open>Create\<close> returns a target, which is active, and a second \<open>Create\<close>
  of the same type returns a handle different from the first, active afterwards, and
  leaves the first target active. When no target of the bucket was
  inactive before the second call, as on the pool of a module just loaded, the second
  handle is the next handle of the engine, it was not in the bucket, and the bucket grows
  by exactly this handle, appended. When one was inactive, the second handle is the first
  inactive target of the bucket (every target before it in the bucket was active, and it
  was not), which the call enables, and the bucket keeps its entries.
\<close>

theorem no_premature_reuse:
  assumes "pool_ok s"
  shows "\<exists>e1 s1 e2 s2.
           Create \<lparr>type = k, pos = p1\<rparr> s = Inr (e1, s1) \<and>
           Create \<lparr>type = k, pos = p2\<rparr> s1 = Inr (e2, s2) \<and>
           active k s1 e1 \<and> e2 \<noteq> e1 \<and> active k s2 e1 \<and> active k s2 e2 \<and>
           (if \<forall>e\<in>set (bucket k s1). active k s1 e
            then e2 = nextEntity s1 \<and> e2 \<notin> set (bucket k s1) \<and>
                 bucket k s2 = bucket k s1 @ [e2]
            else (\<exists>pre post. bucket k s1 = pre @ e2 # post \<and> (\<forall>e\<in>set pre. active k s1 e)) \<and>
                 \<not> active k s1 e2 \<and> bucket k s2 = bucket k s1)"
proof -
  from Create_ok[OF assms, of "\<lparr>type = k, pos = p1\<rparr>" k] obtain e1 s1 pre post tr1 where
    c1: "Create \<lparr>type = k, pos = p1\<rparr> s = Inr (e1, s1)" and ok1: "pool_ok s1" and
    b1: "bucket k s1 = pre @ e1 # post" and a1: "active k s1 e1" by auto
  show ?thesis
  proof (cases "\<forall>e\<in>set (bucket k s1). active k s1 e")
    case True
    from Create_allocates_ok[OF ok1 True, of "\<lparr>type = k, pos = p2\<rparr>"] obtain s2 where
      c2: "Create \<lparr>type = k, pos = p2\<rparr> s1 = Inr (nextEntity s1, s2)" and
      b2: "bucket k s2 = bucket k s1 @ [nextEntity s1]" and
      same: "\<forall>k' e'. e' \<noteq> nextEntity s1 \<longrightarrow> active k' s2 e' = active k' s1 e'" and
      a2: "active k s2 (nextEntity s1)" by auto
    have new: "nextEntity s1 \<notin> set (bucket k s1)" using pool_ok_fresh(2)[OF ok1, of k] .
    then have ne: "nextEntity s1 \<noteq> e1" using b1 by auto
    then have "active k s2 e1" using same a1 by simp
    with c1 c2 b2 a1 a2 ne new True show ?thesis by auto
  next
    case False
    then have "\<exists>e\<in>set (bucket k s1). \<not> active k s1 e" by simp
    from split_list_first_prop[OF this] obtain pre2 e2 post2 where
      b: "bucket k s1 = pre2 @ e2 # post2" and e2: "\<not> active k s1 e2" and
      pre: "\<forall>e'\<in>set pre2. \<not> \<not> active k s1 e'" by blast
    from pre have pre': "\<forall>e'\<in>set pre2. active k s1 e'" by simp
    from Create_recycles[OF ok1 b pre' e2, of "\<lparr>type = k, pos = p2\<rparr>"] obtain s2 where
      c2: "Create \<lparr>type = k, pos = p2\<rparr> s1 = Inr (e2, s2)" and se: "same_elsewhere e2 s1 s2" and
      a2: "active k s2 e2" by auto
    have ne: "e2 \<noteq> e1" using a1 e2 by auto
    then have a1': "active k s2 e1" using same_elsewhere_active[OF se, of e1 k] a1 by simp
    have first: "\<exists>pre post. bucket k s1 = pre @ e2 # post \<and> (\<forall>e\<in>set pre. active k s1 e)"
      using b pre' by blast
    have keep: "bucket k s2 = bucket k s1" using same_elsewhere_bucket[OF se, of k] by simp
    have "Create \<lparr>type = k, pos = p1\<rparr> s = Inr (e1, s1) \<and>
           Create \<lparr>type = k, pos = p2\<rparr> s1 = Inr (e2, s2) \<and>
           active k s1 e1 \<and> e2 \<noteq> e1 \<and> active k s2 e1 \<and> active k s2 e2 \<and>
           (if \<forall>e\<in>set (bucket k s1). active k s1 e
            then e2 = nextEntity s1 \<and> e2 \<notin> set (bucket k s1) \<and>
                 bucket k s2 = bucket k s1 @ [e2]
            else (\<exists>pre post. bucket k s1 = pre @ e2 # post \<and> (\<forall>e\<in>set pre. active k s1 e)) \<and>
                 \<not> active k s1 e2 \<and> bucket k s2 = bucket k s1)"
      using c1 c2 a1 ne a1' a2 first e2 keep False by (simp only: if_False simp_thms)
    then show ?thesis by blast
  qed
qed

theorem no_premature_reuse_witness:
  "pool_ok initial \<and>
   (\<exists>e1 s1 e2 s2.
      Create \<lparr>type = MOVING, pos = Vector3_Zero\<rparr> initial = Inr (e1, s1) \<and>
      Create \<lparr>type = MOVING, pos = Vector3_One\<rparr> s1 = Inr (e2, s2) \<and>
      active MOVING s1 e1 \<and> e2 \<noteq> e1 \<and> active MOVING s2 e1 \<and> active MOVING s2 e2 \<and>
      (if \<forall>e\<in>set (bucket MOVING s1). active MOVING s1 e
       then e2 = nextEntity s1 \<and> e2 \<notin> set (bucket MOVING s1) \<and>
            bucket MOVING s2 = bucket MOVING s1 @ [e2]
       else (\<exists>pre post. bucket MOVING s1 = pre @ e2 # post \<and>
               (\<forall>e\<in>set pre. active MOVING s1 e)) \<and>
            \<not> active MOVING s1 e2 \<and> bucket MOVING s2 = bucket MOVING s1)) \<and>
   pool_ok two_idle \<and>
   (\<exists>e1 s1 e2 s2.
      Create \<lparr>type = STATIC, pos = Vector3_Zero\<rparr> two_idle = Inr (e1, s1) \<and>
      Create \<lparr>type = STATIC, pos = Vector3_One\<rparr> s1 = Inr (e2, s2) \<and>
      active STATIC s1 e1 \<and> e2 \<noteq> e1 \<and> active STATIC s2 e1 \<and> active STATIC s2 e2 \<and>
      (if \<forall>e\<in>set (bucket STATIC s1). active STATIC s1 e
       then e2 = nextEntity s1 \<and> e2 \<notin> set (bucket STATIC s1) \<and>
            bucket STATIC s2 = bucket STATIC s1 @ [e2]
       else (\<exists>pre post. bucket STATIC s1 = pre @ e2 # post \<and>
               (\<forall>e\<in>set pre. active STATIC s1 e)) \<and>
            \<not> active STATIC s1 e2 \<and> bucket STATIC s2 = bucket STATIC s1))"
proof -
  have ok: "pool_ok two_idle"
    by (simp add: pool_ok_iff engine_ok_def two_idle_def)
  show ?thesis
    using no_premature_reuse[OF pool_ok_initial, of MOVING Vector3_Zero Vector3_One]
          no_premature_reuse[OF ok, of STATIC Vector3_Zero Vector3_One] pool_ok_initial ok
    by simp
qed

text \<open>
  The claim C2 as it is stated, that the bucket always grows by one entry, fails on the
  pool with two disabled static targets: the two calls return the handles 0 and 1, both
  taken from the bucket, which has two entries before and after the second call.
\<close>

theorem premature_reuse_counterexample:
  "pool_ok two_idle \<and>
   Create \<lparr>type = STATIC, pos = Vector3_Zero\<rparr> two_idle = Inr (0, two_idle_first) \<and>
   active STATIC two_idle_first 0 \<and>
   Create \<lparr>type = STATIC, pos = Vector3_One\<rparr> two_idle_first = Inr (1, two_idle_second) \<and>
   bucket STATIC two_idle_first = [0, 1] \<and> bucket STATIC two_idle_second = [0, 1] \<and>
   length (bucket STATIC two_idle_second) \<noteq> length (bucket STATIC two_idle_first) + 1"
  by (simp add: pool_ok_iff engine_ok_def Create_def Enable_def active_def bucket_def
      two_idle_second_def two_idle_first_def two_idle_def Vector3_Zero_def Vector3_One_def)

text \<open>
  C3 (arrival tolerance asymmetry), as the code has it. The check for destination
  compares the doubles nearest to the distances with the doubles nearest to 0.05 and
  0.02. For a position and a waypoint with finite coordinates it holds exactly when the
  distance is below \<open>14411518807585587 / 2^58\<close> on the first axis and on the second (the
  midpoint between the double 0.05 and the double below it, a little less than 0.05),
  and at most \<open>11529215046068469 / 2^59\<close> on the third (the midpoint between the double
  0.02 and the double below it, a little less than 0.02). A position on the waypoint's
  first coordinate that differs from the waypoint by at most 0.041 on the second axis
  and at most 0.011 on the third has arrived, so with differences of 0.04 and 0.01
  however these decimals are rounded; with 0.059 or more on the second axis, so with
  0.06, it has not. In a store where every active and processing target has a transform
  and an index inside its waypoints, the tick returns, and an active and processing
  target gets the update of the arrival when the check holds of its position and
  current waypoint, and keeps its component when it does not.
\<close>

theorem arrival_tolerance:
  "(arrived \<lparr>x = Fin px, y = Fin py, z = Fin pz\<rparr> \<lparr>x = Fin wx, y = Fin wy, z = Fin wz\<rparr> \<longleftrightarrow>
      \<bar>px - wx\<bar> < 14411518807585587 / 2 ^ 58 \<and> \<bar>py - wy\<bar> < 14411518807585587 / 2 ^ 58 \<and>
      \<bar>pz - wz\<bar> \<le> 11529215046068469 / 2 ^ 59) \<and>
   (\<bar>dy\<bar> \<le> 0.041 \<and> \<bar>dz\<bar> \<le> 0.011 \<longrightarrow>
      arrived \<lparr>x = Fin wx, y = Fin (wy + dy), z = Fin (wz + dz)\<rparr>
              \<lparr>x = Fin wx, y = Fin wy, z = Fin wz\<rparr>) \<and>
   (0.059 \<le> \<bar>dy\<bar> \<longrightarrow>
      \<not> arrived \<lparr>x = Fin wx, y = Fin (wy + dy), z = Fin (wz + dz)\<rparr>
                \<lparr>x = Fin wx, y = Fin wy, z = Fin wz\<rparr>) \<and>
   (engine_ok s \<and> targets_ready s \<and> TargetMovingComponent s e = Some c \<and>
    isActive c \<and> isProcessing c \<and> Transform s e = Some tr \<longrightarrow>
      fst (MovingTimer dt s) = None \<and>
      (if arrived (position tr) (waypoints c ! nat (indexCur c))
       then \<exists>c'. retarget c (position tr) = Inr c' \<and>
                 TargetMovingComponent (snd (MovingTimer dt s)) e = Some c'
       else TargetMovingComponent (snd (MovingTimer dt s)) e = Some c))"
proof -
  have tick: "fst (MovingTimer dt s) = None \<and>
      (if arrived (position tr) (waypoints c ! nat (indexCur c))
       then \<exists>c'. retarget c (position tr) = Inr c' \<and>
                 TargetMovingComponent (snd (MovingTimer dt s)) e = Some c'
       else TargetMovingComponent (snd (MovingTimer dt s)) e = Some c)"
    if h: "engine_ok s" "targets_ready s" "TargetMovingComponent s e = Some c"
      "isActive c" "isProcessing c" and tr: "Transform s e = Some tr"
  proof -
    note w = targets_ready_waypoint[OF h(2-5)]
    from MovingTimer_tick[OF h, of dt] tr obtain c' p' where
      mv: "MovingTimer_move dt c (position tr) = Inr (c', p')" and
      ret: "fst (MovingTimer dt s) = None" and
      c': "TargetMovingComponent (snd (MovingTimer dt s)) e = Some c'" by auto
    have "if arrived (position tr) (waypoints c ! nat (indexCur c))
          then retarget c (position tr) = Inr c' else c' = c"
      using mv w by (auto simp: MovingTimer_move_def then_do_eq_Inr split: if_splits)
    then show ?thesis using ret c' by (simp split: if_splits)
  qed
  have near: "arrived \<lparr>x = Fin wx, y = Fin (wy + dy), z = Fin (wz + dz)\<rparr>
              \<lparr>x = Fin wx, y = Fin wy, z = Fin wz\<rparr>"
    if "\<bar>dy\<bar> \<le> 0.041" "\<bar>dz\<bar> \<le> 0.011"
    unfolding arrived_exact using that by simp
  have far: "\<not> arrived \<lparr>x = Fin wx, y = Fin (wy + dy), z = Fin (wz + dz)\<rparr>
                \<lparr>x = Fin wx, y = Fin wy, z = Fin wz\<rparr>"
    if "0.059 \<le> \<bar>dy\<bar>"
    unfolding arrived_exact using that by simp
  show ?thesis using tick near far by (simp only: arrived_exact simp_thms) blast
qed

theorem arrival_tolerance_witness:
  "arrived \<lparr>x = Fin 21, y = rnd 1.04, z = rnd 15.99\<rparr> \<lparr>x = Fin 21, y = Fin 1, z = Fin 16\<rparr> \<and>
   \<not> arrived \<lparr>x = Fin 21, y = rnd 1.06, z = rnd 15.99\<rparr> \<lparr>x = Fin 21, y = Fin 1, z = Fin 16\<rparr> \<and>
   \<not> arrived \<lparr>x = Fin 21, y = Fin 1, z = Fin 16.03125\<rparr> \<lparr>x = Fin 21, y = Fin 1, z = Fin 16\<rparr> \<and>
   fst (MovingTimer (Fin 0.5) cruising) = None \<and>
   TargetMovingComponent (snd (MovingTimer (Fin 0.5) cruising)) 0 = TargetMovingComponent cruising 0"
proof -
  have c: "TargetMovingComponent cruising 0 =
     Some \<lparr>isActive = True, isProcessing = True, speed = Fin 2, indexCur = 1,
           waypoints = [\<lparr>x = Fin 11, y = Fin 1, z = Fin 16\<rparr>, \<lparr>x = Fin 21, y = Fin 1, z = Fin 16\<rparr>],
           normal = \<lparr>x = Fin 1, y = Fin 0, z = Fin 0\<rparr>\<rparr>"
    by (simp add: cruising_def)
  have t: "Transform cruising 0 =
     Some \<lparr>position = \<lparr>x = Fin 13, y = Fin 1, z = Fin 16\<rparr>, scale = Vector3_One\<rparr>"
    by (simp add: cruising_def)
  have e: "engine_ok cruising"
    by (auto simp: engine_ok_def cruising_def)
  have r: "targets_ready cruising"
    by (auto simp: targets_ready_def cruising_def split: if_splits)
  have far: "\<not> arrived \<lparr>x = Fin 13, y = Fin 1, z = Fin 16\<rparr> \<lparr>x = Fin 21, y = Fin 1, z = Fin 16\<rparr>"
    using arrival_tolerance[of 13 1 16 21 1 16] by simp
  have a1: "arrived \<lparr>x = Fin 21, y = Fin (1170935903116329 / 2 ^ 50), z = Fin (9001569755206779 / 2 ^ 49)\<rparr>
                    \<lparr>x = Fin 21, y = Fin 1, z = Fin 16\<rparr>"
    using arrival_tolerance[of 21 "1170935903116329 / 2 ^ 50" "9001569755206779 / 2 ^ 49" 21 1 16]
    by simp
  have a2: "\<not> arrived \<lparr>x = Fin 21, y = Fin (2386907802506363 / 2 ^ 51), z = Fin (9001569755206779 / 2 ^ 49)\<rparr>
                    \<lparr>x = Fin 21, y = Fin 1, z = Fin 16\<rparr>"
    using arrival_tolerance[of 21 "2386907802506363 / 2 ^ 51" "9001569755206779 / 2 ^ 49" 21 1 16]
    by simp
  have a3: "\<not> arrived \<lparr>x = Fin 21, y = Fin 1, z = Fin 16.03125\<rparr> \<lparr>x = Fin 21, y = Fin 1, z = Fin 16\<rparr>"
    using arrival_tolerance[of 21 1 "16.03125" 21 1 16] by simp
  have tick: "fst (MovingTimer (Fin 0.5) cruising) = None \<and>
      TargetMovingComponent (snd (MovingTimer (Fin 0.5) cruising)) 0 = TargetMovingComponent cruising 0"
    using arrival_tolerance[of _ _ _ _ _ _ _ _ cruising 0 _ _ "Fin 0.5", THEN conjunct2, THEN conjunct2,
            THEN conjunct2, rule_format, OF conjI[OF e conjI[OF r conjI[OF c]]]]
          t c far
    by simp
  show ?thesis
    unfolding rnd_1_04 rnd_1_06 rnd_15_99 using a1 a2 a3 tick by (simp only: simp_thms)
qed

text \<open>
  The claim C3 as it is stated, that the target has arrived exactly when the distances
  are below 0.05, 0.05 and 0.02, fails for the doubles \<open>p.x = 0.049999999999999996\<close> and
  \<open>w.x = -4e-18\<close>, with the other coordinates equal: the distance on the first axis is
  below 0.05, but the subtraction of line 125 rounds it to the double 0.05, which is not
  below itself, and the check fails.
\<close>

theorem arrival_tolerance_counterexample:
  "is_double (Fin (7205759403792793 / 2 ^ 57)) \<and>
   is_double (Fin (- (1298074214633707 / 2 ^ 108))) \<and>
   \<bar>7205759403792793 / 2 ^ 57 - (- (1298074214633707 / 2 ^ 108))\<bar> < (0.05 :: real) \<and>
   Fin (7205759403792793 / 2 ^ 57) - Fin (- (1298074214633707 / 2 ^ 108)) = rnd 0.05 \<and>
   \<not> arrived \<lparr>x = Fin (7205759403792793 / 2 ^ 57), y = Fin 1, z = Fin 16\<rparr>
              \<lparr>x = Fin (- (1298074214633707 / 2 ^ 108)), y = Fin 1, z = Fin 16\<rparr>"
proof -
  have d1: "is_double (Fin (7205759403792793 / 2 ^ 57))"
    using is_double_dyadic[of 7205759403792793 "- 57"] by (simp add: pow2_def)
  have d2: "is_double (Fin (- (1298074214633707 / 2 ^ 108)))"
    using is_double_dyadic[of "- 1298074214633707" "- 108"] by (simp add: pow2_def)
  have lt: "\<bar>7205759403792793 / 2 ^ 57 - (- (1298074214633707 / 2 ^ 108))\<bar> < (0.05 :: real)"
    by simp
  have sub: "Fin (7205759403792793 / 2 ^ 57) - Fin (- (1298074214633707 / 2 ^ 108)) = rnd 0.05"
    unfolding rnd_0_05
    using rnd_normal[of "- 5" "7205759403792793 / 2 ^ 57 - (- (1298074214633707 / 2 ^ 108))"]
    by (simp add: pow2_def round_even_def)
  have no: "\<not> arrived \<lparr>x = Fin (7205759403792793 / 2 ^ 57), y = Fin 1, z = Fin 16\<rparr>
              \<lparr>x = Fin (- (1298074214633707 / 2 ^ 108)), y = Fin 1, z = Fin 16\<rparr>"
    unfolding arrived_exact by simp
  show ?thesis using d1 d2 lt sub no by (simp only: simp_thms)
qed

text \<open>
  C4 (cyclic waypoint advance). In a store where every active and processing target has
  a transform and an index inside its waypoints, the tick returns, and a target that is
  active and processing and passes the check for destination against its current
  waypoint has afterwards the index \<open>(indexCur + 1) mod length(waypoints)\<close>, which is
  again inside the waypoints; with two waypoints and the index 1 the new index is 0.
\<close>

theorem cyclic_waypoint_advance:
  assumes "engine_ok s" and "targets_ready s"
    and "TargetMovingComponent s e = Some c" and "isActive c" and "isProcessing c"
    and "Transform s e = Some tr"
    and "arrived (position tr) (waypoints c ! nat (indexCur c))"
  shows "\<exists>c'. fst (MovingTimer dt s) = None \<and>
           TargetMovingComponent (snd (MovingTimer dt s)) e = Some c' \<and>
           indexCur c' = (indexCur c + 1) mod int (length (waypoints c)) \<and>
           0 \<le> indexCur c' \<and> indexCur c' < int (length (waypoints c')) \<and>
           (length (waypoints c) = 2 \<and> indexCur c = 1 \<longrightarrow> indexCur c' = 0)"
proof -
  note w = targets_ready_waypoint[OF assms(2-5)]
  from MovingTimer_tick[OF assms(1-5), of dt] assms(6) obtain c' p' where
    mv: "MovingTimer_move dt c (position tr) = Inr (c', p')" and
    ret: "fst (MovingTimer dt s) = None" and
    c': "TargetMovingComponent (snd (MovingTimer dt s)) e = Some c'" by auto
  from mv w assms(7) have r: "retarget c (position tr) = Inr c'"
    by (auto simp: MovingTimer_move_def then_do_eq_Inr)
  from retarget_index[of c "position tr"] w r
  have idx: "indexCur c' = (indexCur c + 1) mod int (length (waypoints c))" by simp
  note f = retarget_fields[OF r]
  have "length (waypoints c) = 2 \<and> indexCur c = 1 \<longrightarrow> indexCur c' = 0" using idx by simp
  then show ?thesis using ret c' idx f by simp
qed

theorem cyclic_waypoint_advance_witness:
  "\<exists>c'. fst (MovingTimer (Fin 0.5) at_last_waypoint) = None \<and>
        TargetMovingComponent (snd (MovingTimer (Fin 0.5) at_last_waypoint)) 0 = Some c' \<and>
        indexCur c' = 0"
proof -
  have c: "TargetMovingComponent at_last_waypoint 0 =
     Some \<lparr>isActive = True, isProcessing = True, speed = Fin 2, indexCur = 1,
           waypoints = [\<lparr>x = Fin 11, y = Fin 1, z = Fin 16\<rparr>, \<lparr>x = Fin 21, y = Fin 1, z = Fin 16\<rparr>],
           normal = \<lparr>x = Fin 1, y = Fin 0, z = Fin 0\<rparr>\<rparr>"
    by (simp add: at_last_waypoint_def cruising_def)
  have t: "Transform at_last_waypoint 0 =
     Some \<lparr>position = \<lparr>x = Fin 21, y = Fin 1, z = Fin 16\<rparr>, scale = Vector3_One\<rparr>"
    by (simp add: at_last_waypoint_def)
  have e: "engine_ok at_last_waypoint"
    by (auto simp: engine_ok_def at_last_waypoint_def cruising_def)
  have r: "targets_ready at_last_waypoint"
    by (auto simp: targets_ready_def at_last_waypoint_def cruising_def split: if_splits)
  from cyclic_waypoint_advance[OF e r c _ _ t, of "Fin 0.5"]
  show ?thesis by (auto simp: arrived_exact)
qed

text \<open>
  C5 (idle motion). A moving target whose \<open>isProcessing\<close> is false, or whose \<open>isActive\<close>
  is false, keeps its transform, and so its position, and keeps its component, through
  any run of ticks, whatever the elapsed time of each tick and whatever the other
  entities do, even when a tick ends in an exception.
\<close>

theorem idle_motion:
  assumes "TargetMovingComponent s e = Some c" and "\<not> isProcessing c \<or> \<not> isActive c"
  shows "Transform (run_ticks dts s) e = Transform s e \<and>
         TargetMovingComponent (run_ticks dts s) e = Some c"
proof -
  let ?P = "\<lambda>s'. Transform s' e = Transform s e \<and> TargetMovingComponent s' e = Some c"
  have step: "?P s2" if "?P s1" "MovingTimer_entity dt e' s1 = Inr s2" for dt e' s1 s2
  proof (cases "e' = e")
    case False
    then show ?thesis using MovingTimer_entity_other[OF that(2), of e] that(1) by simp
  next
    case True
    have "MovingTimer_entity dt e s1 = Inr s1"
      using that(1) assms(2) by (auto simp: MovingTimer_entity_idle)
    then show ?thesis using that True by simp
  qed
  have "?P (run_ticks dts s)"
  proof (rule run_ticks_invariant[where P = ?P])
    show "?P s" using assms(1) by simp
  next
    fix dt e' s1 s2
    assume "?P s1" "MovingTimer_entity dt e' s1 = Inr s2"
    then show "?P s2" by (rule step)
  qed
  then show ?thesis .
qed

theorem idle_motion_witness:
  "TargetMovingComponent parked 0 =
     Some \<lparr>isActive = True, isProcessing = False, speed = Fin 2, indexCur = 1,
           waypoints = [\<lparr>x = Fin 11, y = Fin 1, z = Fin 16\<rparr>, \<lparr>x = Fin 21, y = Fin 1, z = Fin 16\<rparr>],
           normal = \<lparr>x = Fin 1, y = Fin 0, z = Fin 0\<rparr>\<rparr> \<and>
   Transform (run_ticks [Fin 0.5, Fin 0.25, Fin 1] parked) 0 =
     Some \<lparr>position = \<lparr>x = Fin 13, y = Fin 1, z = Fin 16\<rparr>, scale = Vector3_One\<rparr>"
proof -
  have c: "TargetMovingComponent parked 0 =
     Some \<lparr>isActive = True, isProcessing = False, speed = Fin 2, indexCur = 1,
           waypoints = [\<lparr>x = Fin 11, y = Fin 1, z = Fin 16\<rparr>, \<lparr>x = Fin 21, y = Fin 1, z = Fin 16\<rparr>],
           normal = \<lparr>x = Fin 1, y = Fin 0, z = Fin 0\<rparr>\<rparr>"
    by (simp add: parked_def cruising_def)
  have "Transform parked 0 = Some \<lparr>position = \<lparr>x = Fin 13, y = Fin 1, z = Fin 16\<rparr>, scale = Vector3_One\<rparr>"
    by (simp add: parked_def cruising_def)
  moreover have "Transform (run_ticks [Fin 0.5, Fin 0.25, Fin 1] parked) 0 = Transform parked 0"
    using idle_motion[OF c, of "[Fin 0.5, Fin 0.25, Fin 1]"] by simp
  ultimately show ?thesis using c by (simp only:)
qed

text \<open>
  C6 (scale of motion), as the code has it. In a store where every active and processing
  target has a transform and an index inside its waypoints, the tick returns, and the
  position of every active and processing target is afterwards, on each axis, the double
  sum of its old coordinate and the double product \<open>dt * speed * normal\<close>, with the
  direction \<open>normal\<close> that the component has after the tick: the recomputed one when the
  target had arrived, the old one otherwise. Each product and each sum is rounded to the
  nearest double. With the elapsed time 0.5, the speed 2, the direction \<open>(1, 0, 0)\<close>, no
  arrival and a position of doubles, the step added is exactly 1 on the first axis and
  the position stays on the other two; the first coordinate moves by exactly 1 when the
  sum is a double, as it is for an integer coordinate of magnitude below \<open>2^53 - 1\<close>.
\<close>

theorem scale_of_motion:
  assumes "engine_ok s" and "targets_ready s"
    and "TargetMovingComponent s e = Some c" and "isActive c" and "isProcessing c"
  shows "\<exists>tr c' tr'. fst (MovingTimer dt s) = None \<and> Transform s e = Some tr \<and>
           TargetMovingComponent (snd (MovingTimer dt s)) e = Some c' \<and>
           Transform (snd (MovingTimer dt s)) e = Some tr' \<and>
           position tr' = \<lparr>x = x (position tr) + dt * speed c' * x (normal c'),
                            y = y (position tr) + dt * speed c' * y (normal c'),
                            z = z (position tr) + dt * speed c' * z (normal c')\<rparr> \<and>
           scale tr' = scale tr \<and> speed c' = speed c \<and>
           (if arrived (position tr) (waypoints c ! nat (indexCur c))
            then retarget c (position tr) = Inr c' else c' = c) \<and>
           (dt = Fin 0.5 \<and> speed c = Fin 2 \<and> normal c = \<lparr>x = Fin 1, y = Fin 0, z = Fin 0\<rparr> \<and>
            \<not> arrived (position tr) (waypoints c ! nat (indexCur c)) \<and>
            is_double_vector (position tr) \<longrightarrow>
              position tr' = \<lparr>x = x (position tr) + Fin 1, y = y (position tr), z = z (position tr)\<rparr> \<and>
              (\<forall>a. x (position tr) = Fin a \<and> is_double (Fin (a + 1)) \<longrightarrow>
                   x (position tr') = Fin (a + 1)) \<and>
              (\<forall>n. x (position tr) = Fin (of_int n) \<and> \<bar>n\<bar> < 2 ^ 53 - 1 \<longrightarrow>
                   x (position tr') = Fin (of_int n + 1)))"
proof -
  note w = targets_ready_waypoint[OF assms(2-5)]
  from MovingTimer_tick[OF assms(1-5), of dt] obtain tr c' p' where
    tr: "Transform s e = Some tr" and
    mv: "MovingTimer_move dt c (position tr) = Inr (c', p')" and
    ret: "fst (MovingTimer dt s) = None" and
    c': "TargetMovingComponent (snd (MovingTimer dt s)) e = Some c'" and
    tr': "Transform (snd (MovingTimer dt s)) e = Some (tr\<lparr>position := p'\<rparr>)" by blast
  note f = MovingTimer_move_fields[OF mv]
  have br: "if arrived (position tr) (waypoints c ! nat (indexCur c))
            then retarget c (position tr) = Inr c' else c' = c"
    using mv w by (auto simp: MovingTimer_move_def then_do_eq_Inr split: if_splits)
  have p': "p' = \<lparr>x = x (position tr) + dt * speed c' * x (normal c'),
                   y = y (position tr) + dt * speed c' * y (normal c'),
                   z = z (position tr) + dt * speed c' * z (normal c')\<rparr>"
    using f by (simp add: translate_def)
  have ex: "p' = \<lparr>x = x (position tr) + Fin 1, y = y (position tr), z = z (position tr)\<rparr> \<and>
            (\<forall>a. x (position tr) = Fin a \<and> is_double (Fin (a + 1)) \<longrightarrow> x p' = Fin (a + 1)) \<and>
            (\<forall>n. x (position tr) = Fin (of_int n) \<and> \<bar>n\<bar> < 2 ^ 53 - 1 \<longrightarrow>
                 x p' = Fin (of_int n + 1))"
    if "dt = Fin 0.5" "speed c = Fin 2" "normal c = \<lparr>x = Fin 1, y = Fin 0, z = Fin 0\<rparr>"
       "\<not> arrived (position tr) (waypoints c ! nat (indexCur c))"
       "is_double_vector (position tr)"
  proof -
    from br that(4) have "c' = c" by simp
    then have 1: "p' = \<lparr>x = x (position tr) + Fin 1, y = y (position tr), z = z (position tr)\<rparr>"
      using p' that(1-3,5) by (simp add: is_double_vector_def is_double_add_zero)
    have 2: "x p' = Fin (a + 1)" if "x (position tr) = Fin a" "is_double (Fin (a + 1))" for a
      using 1 that by simp
    have 3: "x p' = Fin (of_int n + 1)" if "x (position tr) = Fin (of_int n)" "\<bar>n\<bar> < 2 ^ 53 - 1" for n
    proof -
      have "\<bar>n + 1\<bar> < 2 ^ 53" using that(2) by simp
      from rnd_of_int[OF this] show ?thesis using 1 that(1) by simp
    qed
    show ?thesis using 1 2 3 by blast
  qed
  have "fst (MovingTimer dt s) = None \<and> Transform s e = Some tr \<and>
           TargetMovingComponent (snd (MovingTimer dt s)) e = Some c' \<and>
           Transform (snd (MovingTimer dt s)) e = Some (tr\<lparr>position := p'\<rparr>) \<and>
           position (tr\<lparr>position := p'\<rparr>) = \<lparr>x = x (position tr) + dt * speed c' * x (normal c'),
                            y = y (position tr) + dt * speed c' * y (normal c'),
                            z = z (position tr) + dt * speed c' * z (normal c')\<rparr> \<and>
           scale (tr\<lparr>position := p'\<rparr>) = scale tr \<and> speed c' = speed c \<and>
           (if arrived (position tr) (waypoints c ! nat (indexCur c))
            then retarget c (position tr) = Inr c' else c' = c) \<and>
           (dt = Fin 0.5 \<and> speed c = Fin 2 \<and> normal c = \<lparr>x = Fin 1, y = Fin 0, z = Fin 0\<rparr> \<and>
            \<not> arrived (position tr) (waypoints c ! nat (indexCur c)) \<and>
            is_double_vector (position tr) \<longrightarrow>
              position (tr\<lparr>position := p'\<rparr>) =
                \<lparr>x = x (position tr) + Fin 1, y = y (position tr), z = z (position tr)\<rparr> \<and>
              (\<forall>a. x (position tr) = Fin a \<and> is_double (Fin (a + 1)) \<longrightarrow>
                   x (position (tr\<lparr>position := p'\<rparr>)) = Fin (a + 1)) \<and>
              (\<forall>n. x (position tr) = Fin (of_int n) \<and> \<bar>n\<bar> < 2 ^ 53 - 1 \<longrightarrow>
                   x (position (tr\<lparr>position := p'\<rparr>)) = Fin (of_int n + 1)))"
    using ret tr c' tr' p' f br ex by simp
  then show ?thesis by blast
qed

theorem scale_of_motion_witness:
  "fst (MovingTimer (Fin 0.5) cruising) = None \<and>
   (\<exists>tr'. Transform (snd (MovingTimer (Fin 0.5) cruising)) 0 = Some tr' \<and>
          position tr' = \<lparr>x = Fin 14, y = Fin 1, z = Fin 16\<rparr>)"
proof -
  have c: "TargetMovingComponent cruising 0 =
     Some \<lparr>isActive = True, isProcessing = True, speed = Fin 2, indexCur = 1,
           waypoints = [\<lparr>x = Fin 11, y = Fin 1, z = Fin 16\<rparr>, \<lparr>x = Fin 21, y = Fin 1, z = Fin 16\<rparr>],
           normal = \<lparr>x = Fin 1, y = Fin 0, z = Fin 0\<rparr>\<rparr>"
    by (simp add: cruising_def)
  have t: "Transform cruising 0 =
     Some \<lparr>position = \<lparr>x = Fin 13, y = Fin 1, z = Fin 16\<rparr>, scale = Vector3_One\<rparr>"
    by (simp add: cruising_def)
  have e: "engine_ok cruising"
    by (auto simp: engine_ok_def cruising_def)
  have r: "targets_ready cruising"
    by (auto simp: targets_ready_def cruising_def split: if_splits)
  from scale_of_motion[OF e r c, of "Fin 0.5"] t
  show ?thesis by (auto simp: arrived_exact is_double_vector_def)
qed

text \<open>
  The claim C6 as it is stated, that with the speed 2, the elapsed time 0.5, the
  direction \<open>(1, 0, 0)\<close> and no arrival one tick changes the position by exactly
  \<open>(1, 0, 0)\<close>, fails for the target at \<open>2^53\<close> on the first axis: \<open>2^53 + 1\<close> is half-way
  between two doubles and rounds to \<open>2^53\<close>, so the tick returns and leaves the transform,
  and the component, as they were.
\<close>

theorem scale_of_motion_counterexample:
  "TargetMovingComponent far_out 0 =
     Some \<lparr>isActive = True, isProcessing = True, speed = Fin 2, indexCur = 1,
           waypoints = [\<lparr>x = Fin 11, y = Fin 1, z = Fin 16\<rparr>, \<lparr>x = Fin 21, y = Fin 1, z = Fin 16\<rparr>],
           normal = \<lparr>x = Fin 1, y = Fin 0, z = Fin 0\<rparr>\<rparr> \<and>
   Transform far_out 0 =
     Some \<lparr>position = \<lparr>x = Fin 9007199254740992, y = Fin 1, z = Fin 16\<rparr>, scale = Vector3_One\<rparr> \<and>
   is_double (Fin 9007199254740992) \<and>
   \<not> arrived \<lparr>x = Fin 9007199254740992, y = Fin 1, z = Fin 16\<rparr> \<lparr>x = Fin 21, y = Fin 1, z = Fin 16\<rparr> \<and>
   fst (MovingTimer (Fin 0.5) far_out) = None \<and>
   Transform (snd (MovingTimer (Fin 0.5) far_out)) 0 = Transform far_out 0 \<and>
   TargetMovingComponent (snd (MovingTimer (Fin 0.5) far_out)) 0 = TargetMovingComponent far_out 0"
proof -
  let ?c = "\<lparr>isActive = True, isProcessing = True, speed = Fin 2, indexCur = 1,
           waypoints = [\<lparr>x = Fin 11, y = Fin 1, z = Fin 16\<rparr>, \<lparr>x = Fin 21, y = Fin 1, z = Fin 16\<rparr>],
           normal = \<lparr>x = Fin 1, y = Fin 0, z = Fin 0\<rparr>\<rparr>"
  let ?p = "\<lparr>x = Fin 9007199254740992, y = Fin 1, z = Fin 16\<rparr>"
  have c: "TargetMovingComponent far_out 0 = Some ?c"
    by (simp add: far_out_def cruising_def)
  have t: "Transform far_out 0 = Some \<lparr>position = ?p, scale = Vector3_One\<rparr>"
    by (simp add: far_out_def)
  have e: "engine_ok far_out"
    by (auto simp: engine_ok_def far_out_def cruising_def)
  have r: "targets_ready far_out"
    by (auto simp: targets_ready_def far_out_def cruising_def split: if_splits)
  have far: "\<not> arrived ?p \<lparr>x = Fin 21, y = Fin 1, z = Fin 16\<rparr>"
    unfolding arrived_exact by simp
  have mv: "MovingTimer_move (Fin 0.5) ?c ?p = Inr (?c, ?p)"
    using far by (simp add: MovingTimer_move_def waypoint_at_def translate_def rnd_tie)
  from MovingTimer_tick[OF e r c, of "Fin 0.5"] t mv
  have "fst (MovingTimer (Fin 0.5) far_out) = None \<and>
        TargetMovingComponent (snd (MovingTimer (Fin 0.5) far_out)) 0 = Some ?c \<and>
        Transform (snd (MovingTimer (Fin 0.5) far_out)) 0 = Some \<lparr>position = ?p, scale = Vector3_One\<rparr>"
    by auto
  then show ?thesis using c t far is_double_2_53 by (simp only: simp_thms)
qed

text \<open>
  C7 (fresh creation). On a consistent pool where every target of the bucket of the type is
  active, \<open>Create\<close> returns the next handle of the engine, which carried no component
  and was in no bucket entry of the type; afterwards the entity has a transform at the
  requested position, a static target has the state \<open>isActive = true\<close>, a moving target
  has \<open>isActive = true\<close>, \<open>isProcessing = false\<close> and \<open>indexCur = 0\<close>, the handle is the last entry of the bucket of the type,
  the other bucket is unchanged, and the pool is consistent again.
\<close>

theorem fresh_creation:
  assumes "pool_ok s" and "\<forall>e\<in>set (bucket k s). active k s e"
  shows "\<exists>s' c. Create \<lparr>type = k, pos = p\<rparr> s = Inr (nextEntity s, s') \<and>
           gone (nextEntity s) s \<and> nextEntity s \<notin> set (bucket k s) \<and>
           Transform s' (nextEntity s) = Some \<lparr>position = p, scale = Vector3_One\<rparr> \<and>
           (k = STATIC \<longrightarrow>
              TargetStaticComponent s' (nextEntity s) = Some \<lparr>TargetStaticComponentData.isActive = True\<rparr>) \<and>
           (k = MOVING \<longrightarrow>
              TargetMovingComponent s' (nextEntity s) = Some c \<and>
              isActive c \<and> \<not> isProcessing c \<and> indexCur c = 0) \<and>
           bucket k s' = bucket k s @ [nextEntity s] \<and>
           (\<forall>k'. k' \<noteq> k \<longrightarrow> bucket k' s' = bucket k' s) \<and>
           pool_ok s'"
proof -
  let ?c = "TargetMovingComponent_schema_default\<lparr>isActive := True, isProcessing := False\<rparr>"
  from Create_allocates[OF assms, of "\<lparr>type = k, pos = p\<rparr>"] obtain s' where
    c: "Create \<lparr>type = k, pos = p\<rparr> s = Inr (nextEntity s, s')" and
    t: "Transform s' = (Transform s)(nextEntity s \<mapsto> \<lparr>position = p, scale = Vector3_One\<rparr>)" and
    m: "(case k of
              STATIC \<Rightarrow>
                TargetStaticComponent s' = (TargetStaticComponent s)
                  (nextEntity s \<mapsto> \<lparr>TargetStaticComponentData.isActive = True\<rparr>) \<and>
                TargetMovingComponent s' = TargetMovingComponent s
            | MOVING \<Rightarrow>
                TargetMovingComponent s' = (TargetMovingComponent s)(nextEntity s \<mapsto> ?c) \<and>
                TargetStaticComponent s' = TargetStaticComponent s)"
    by auto
  from Create_allocates_ok[OF assms, of "\<lparr>type = k, pos = p\<rparr>"] c have
    b: "bucket k s' = bucket k s @ [nextEntity s]"
       "\<forall>k'. k' \<noteq> k \<longrightarrow> bucket k' s' = bucket k' s" "pool_ok s'" by auto
  have fresh: "gone (nextEntity s) s" "nextEntity s \<notin> set (bucket k s)"
    using pool_ok_fresh[OF assms(1)] by simp_all
  have "Create \<lparr>type = k, pos = p\<rparr> s = Inr (nextEntity s, s') \<and>
           gone (nextEntity s) s \<and> nextEntity s \<notin> set (bucket k s) \<and>
           Transform s' (nextEntity s) = Some \<lparr>position = p, scale = Vector3_One\<rparr> \<and>
           (k = STATIC \<longrightarrow>
              TargetStaticComponent s' (nextEntity s) = Some \<lparr>TargetStaticComponentData.isActive = True\<rparr>) \<and>
           (k = MOVING \<longrightarrow>
              TargetMovingComponent s' (nextEntity s) = Some ?c \<and>
              isActive ?c \<and> \<not> isProcessing ?c \<and> indexCur ?c = 0) \<and>
           bucket k s' = bucket k s @ [nextEntity s] \<and>
           (\<forall>k'. k' \<noteq> k \<longrightarrow> bucket k' s' = bucket k' s) \<and>
           pool_ok s'"
    using c t m b fresh by (cases k) (simp_all add: TargetMovingComponent_schema_default_def)
  then show ?thesis by blast
qed

theorem fresh_creation_witness:
  "pool_ok initial \<and>
   (\<exists>s' c. Create \<lparr>type = MOVING, pos = \<lparr>x = Fin 11, y = Fin 1, z = Fin 20\<rparr>\<rparr> initial = Inr (0, s') \<and>
      Transform s' 0 = Some \<lparr>position = \<lparr>x = Fin 11, y = Fin 1, z = Fin 20\<rparr>, scale = Vector3_One\<rparr> \<and>
      TargetMovingComponent s' 0 = Some c \<and> isActive c \<and> \<not> isProcessing c \<and> indexCur c = 0 \<and>
      bucket MOVING s' = [0] \<and> bucket STATIC s' = [])"
proof -
  have all: "\<forall>e\<in>set (bucket MOVING initial). active MOVING initial e"
    by (simp add: bucket_initial)
  have n: "nextEntity initial = 0" by (simp add: initial_def)
  from fresh_creation[OF pool_ok_initial all, of "\<lparr>x = Fin 11, y = Fin 1, z = Fin 20\<rparr>"]
  show ?thesis using pool_ok_initial by (simp add: n bucket_initial) blast
qed

text \<open>
  C8 (coverage of DisableAll and DestroyAll). On a consistent pool \<open>DisableAll\<close> returns,
  leaves the pool as it is, and afterwards every static target of the pool has
  \<open>isActive = false\<close> and every moving target of the pool has \<open>isActive = false\<close> and
  \<open>isProcessing = false\<close>. On any store \<open>DestroyAll\<close> destroys the handles of the pool
  bucket after bucket, each bucket from its last handle to its first; afterwards the pool
  has as many buckets as before, every bucket is empty, and every handle that was in a
  bucket carries no component.
\<close>

theorem disable_all_destroy_all:
  "(pool_ok s \<longrightarrow>
      (\<exists>s'. DisableAll s = Inr s' \<and> pooledObjects s' = pooledObjects s \<and>
         (\<forall>e\<in>set (bucket STATIC s').
            \<exists>c. TargetStaticComponent s' e = Some c \<and> \<not> TargetStaticComponentData.isActive c) \<and>
         (\<forall>e\<in>set (bucket MOVING s').
            \<exists>c. TargetMovingComponent s' e = Some c \<and> \<not> isActive c \<and> \<not> isProcessing c))) \<and>
   DestroyAll s =
     (fold Destroy (concat (map rev (pooledObjects s))) s)
       \<lparr>pooledObjects := replicate (length (pooledObjects s)) []\<rparr> \<and>
   length (pooledObjects (DestroyAll s)) = length (pooledObjects s) \<and>
   (\<forall>b\<in>set (pooledObjects (DestroyAll s)). b = []) \<and>
   (\<forall>b\<in>set (pooledObjects s). \<forall>e\<in>set b. gone e (DestroyAll s))"
proof -
  have disable: "\<exists>s'. DisableAll s = Inr s' \<and> pooledObjects s' = pooledObjects s \<and>
         (\<forall>e\<in>set (bucket STATIC s').
            \<exists>c. TargetStaticComponent s' e = Some c \<and> \<not> TargetStaticComponentData.isActive c) \<and>
         (\<forall>e\<in>set (bucket MOVING s').
            \<exists>c. TargetMovingComponent s' e = Some c \<and> \<not> isActive c \<and> \<not> isProcessing c)"
    if ok: "pool_ok s"
  proof -
    from DisableAll_effect[OF ok] obtain s' where
      d: "DisableAll s = Inr s'" and q: "quieter s s'" and
      st: "\<forall>e\<in>set (bucket STATIC s). switched_off 0 s' e" and
      mv: "\<forall>e\<in>set (bucket MOVING s). switched_off 1 s' e" by blast
    have p: "pooledObjects s' = pooledObjects s" using q by (simp add: quieter_def)
    then have b: "bucket k s' = bucket k s" for k by (simp add: bucket_def)
    show ?thesis using d p st mv by (simp add: b switched_off_def)
  qed
  have fold: "DestroyAll s =
     (fold Destroy (concat (map rev (pooledObjects s))) s)
       \<lparr>pooledObjects := replicate (length (pooledObjects s)) []\<rparr>"
    using DestroyAll_loop_fold[of 0 s] by (simp add: DestroyAll_def)
  have pool: "pooledObjects (DestroyAll s) = replicate (length (pooledObjects s)) []"
    using DestroyAll_effect[of s] by simp
  have gone: "\<forall>b\<in>set (pooledObjects s). \<forall>e\<in>set b. gone e (DestroyAll s)"
    using DestroyAll_effect[of s] by simp
  show ?thesis using disable fold gone by (simp add: pool)
qed

theorem disable_all_destroy_all_witness:
  "pool_ok two_idle_second \<and>
   (\<exists>s'. DisableAll two_idle_second = Inr s' \<and> pooledObjects s' = pooledObjects two_idle_second \<and>
      (\<forall>e\<in>set (bucket STATIC s').
         \<exists>c. TargetStaticComponent s' e = Some c \<and> \<not> TargetStaticComponentData.isActive c) \<and>
      (\<forall>e\<in>set (bucket MOVING s').
         \<exists>c. TargetMovingComponent s' e = Some c \<and> \<not> isActive c \<and> \<not> isProcessing c)) \<and>
   pooledObjects (DestroyAll two_idle_second) = [[], []] \<and>
   gone 0 (DestroyAll two_idle_second) \<and> gone 1 (DestroyAll two_idle_second)"
proof -
  note t = disable_all_destroy_all[of two_idle_second]
  have ok: "pool_ok two_idle_second"
    by (simp add: pool_ok_iff engine_ok_def two_idle_second_def two_idle_first_def two_idle_def)
  have p: "pooledObjects two_idle_second = [[0, 1], []]"
    by (simp add: two_idle_second_def two_idle_first_def two_idle_def)
  note disabled = t[THEN conjunct1, rule_format, OF ok]
  have "pooledObjects (DestroyAll two_idle_second) =
          replicate (length (pooledObjects two_idle_second)) []"
    by (subst t[THEN conjunct2, THEN conjunct1]) simp
  then have empty: "pooledObjects (DestroyAll two_idle_second) = [[], []]"
    by (simp add: p numeral_2_eq_2)
  have "\<forall>b\<in>set [[0, 1], []]. \<forall>e\<in>set b. gone e (DestroyAll two_idle_second)"
    using t[THEN conjunct2, THEN conjunct2, THEN conjunct2, THEN conjunct2] by (simp only: p)
  then have g: "gone 0 (DestroyAll two_idle_second)" "gone 1 (DestroyAll two_idle_second)"
    by simp_all
  show ?thesis using ok disabled empty g by (simp only: simp_thms)
qed

text \<open>
  C9 (frame of Destroy). \<open>Destroy\<close> of an entity leaves the pool and the entity counter as
  they are, leaves the entity without any component, and leaves the components of every
  other entity as they are. The handle stays in its bucket, so the pool is no longer
  consistent when the entity was pooled.
\<close>

theorem destroy_frame:
  "pooledObjects (Destroy e s) = pooledObjects s \<and>
   nextEntity (Destroy e s) = nextEntity s \<and>
   gone e (Destroy e s) \<and>
   (\<forall>e'. e' \<noteq> e \<longrightarrow>
      Transform (Destroy e s) e' = Transform s e' \<and>
      GltfContainer (Destroy e s) e' = GltfContainer s e' \<and>
      TargetStaticComponent (Destroy e s) e' = TargetStaticComponent s e' \<and>
      TargetMovingComponent (Destroy e s) e' = TargetMovingComponent s e')"
  by (simp add: Destroy_def engine_removeEntity_def gone_def)

theorem destroy_frame_witness:
  "pooledObjects (Destroy 0 two_idle_second) = [[0, 1], []] \<and>
   gone 0 (Destroy 0 two_idle_second) \<and>
   TargetStaticComponent (Destroy 0 two_idle_second) 1 =
     Some \<lparr>TargetStaticComponentData.isActive = True\<rparr> \<and>
   \<not> pool_ok (Destroy 0 two_idle_second)"
proof -
  note f = destroy_frame[of 0 two_idle_second]
  have p: "pooledObjects (Destroy 0 two_idle_second) = [[0, 1], []]"
    using f by (simp add: two_idle_second_def two_idle_first_def two_idle_def)
  have g: "gone 0 (Destroy 0 two_idle_second)" using f by simp
  have "TargetStaticComponent (Destroy 0 two_idle_second) 1 = TargetStaticComponent two_idle_second 1"
    using f[THEN conjunct2, THEN conjunct2, THEN conjunct2, rule_format, of 1] by simp
  then have s1: "TargetStaticComponent (Destroy 0 two_idle_second) 1 =
      Some \<lparr>TargetStaticComponentData.isActive = True\<rparr>"
    by (simp add: two_idle_second_def two_idle_first_def two_idle_def)
  have "\<not> pool_ok (Destroy 0 two_idle_second)"
    using g by (simp add: pool_ok_iff p gone_def)
  then show ?thesis using p g s1 by (simp only: simp_thms)
qed

text \<open>
  C10 (a freshly created moving target does not move), as the code has it. On a
  consistent pool whose moving targets are all active, \<open>Create\<close> of a moving target
  returns a new entity whose cached direction \<open>normal\<close> is the zero vector of the schema.
  Whatever the caller then assigns to \<open>isActive\<close>, \<open>isProcessing\<close>, \<open>speed\<close>, \<open>indexCur\<close> and
  \<open>waypoints\<close>, if the position of the entity is a vector of doubles that does not pass
  the check for destination against the current waypoint, then after any run of ticks
  whose products \<open>dt * speed\<close> are finite doubles (neither factor is an infinity or NaN,
  and the product does not overflow) the transform of the entity, and so its position,
  is what it was.
\<close>

theorem fresh_target_never_moves:
  assumes "pool_ok s" and "\<forall>e\<in>set (bucket MOVING s). active MOVING s e"
  shows "\<exists>e s1 c. Create \<lparr>type = MOVING, pos = p\<rparr> s = Inr (e, s1) \<and>
           TargetMovingComponent s1 e = Some c \<and> normal c = Vector3_Zero \<and>
           (\<forall>s2 tr dts a r v i ws.
              TargetMovingComponent s2 e =
                Some (c\<lparr>isActive := a, isProcessing := r, speed := v, indexCur := i,
                        waypoints := ws\<rparr>) \<and>
              Transform s2 e = Some tr \<and> is_double_vector (position tr) \<and>
              (\<forall>w. waypoint_at (c\<lparr>isActive := a, isProcessing := r, speed := v,
                                   indexCur := i, waypoints := ws\<rparr>) = Inr w \<longrightarrow>
                   \<not> arrived (position tr) w) \<and>
              (\<forall>dt\<in>set dts. isFinite (dt * v)) \<longrightarrow>
              Transform (run_ticks dts s2) e = Some tr)"
proof -
  let ?c = "TargetMovingComponent_schema_default\<lparr>isActive := True, isProcessing := False\<rparr>"
  from Create_allocates[OF assms, of "\<lparr>type = MOVING, pos = p\<rparr>"] obtain s1 where
    s1: "Create \<lparr>type = MOVING, pos = p\<rparr> s = Inr (nextEntity s, s1)"
      "TargetMovingComponent s1 = (TargetMovingComponent s)(nextEntity s \<mapsto> ?c)"
    by auto
  have n: "normal ?c = Vector3_Zero" by (simp add: TargetMovingComponent_schema_default_def)
  have stuck: "Transform (run_ticks dts s2) (nextEntity s) = Some tr"
    if "TargetMovingComponent s2 (nextEntity s) =
          Some (?c\<lparr>isActive := a, isProcessing := r, speed := v, indexCur := i, waypoints := ws\<rparr>)"
       "Transform s2 (nextEntity s) = Some tr" "is_double_vector (position tr)"
       "\<forall>w. waypoint_at (?c\<lparr>isActive := a, isProcessing := r, speed := v,
                               indexCur := i, waypoints := ws\<rparr>) = Inr w \<longrightarrow>
              \<not> arrived (position tr) w"
       "\<forall>dt\<in>set dts. isFinite (dt * v)"
    for s2 tr dts a r v i ws
    using zero_direction_stuck[OF that(1) _ that(2) that(3) that(4), of dts] n that(5) by simp
  have "Create \<lparr>type = MOVING, pos = p\<rparr> s = Inr (nextEntity s, s1) \<and>
           TargetMovingComponent s1 (nextEntity s) = Some ?c \<and> normal ?c = Vector3_Zero"
    using s1 n by simp
  with stuck show ?thesis by blast
qed

theorem fresh_target_never_moves_witness:
  "pool_ok initial \<and>
   Transform (run_ticks [Fin 0.5, Fin 1, Fin 30] demo_target) 0 =
     Some \<lparr>position = \<lparr>x = Fin 11, y = Fin 1, z = Fin 20\<rparr>, scale = Vector3_One\<rparr>"
proof -
  note ok = pool_ok_initial
  have all: "\<forall>e\<in>set (bucket MOVING initial). active MOVING initial e"
    by (simp add: bucket_initial)
  from fresh_target_never_moves[OF ok all, of "\<lparr>x = Fin 11, y = Fin 1, z = Fin 20\<rparr>"]
  obtain e s1 c where
    cr: "Create \<lparr>type = MOVING, pos = \<lparr>x = Fin 11, y = Fin 1, z = Fin 20\<rparr>\<rparr> initial = Inr (e, s1)" and
    c: "TargetMovingComponent s1 e = Some c" and
    n: "normal c = Vector3_Zero" and
    stuck: "\<forall>s2 tr dts a r v i ws.
              TargetMovingComponent s2 e =
                Some (c\<lparr>isActive := a, isProcessing := r, speed := v, indexCur := i,
                        waypoints := ws\<rparr>) \<and>
              Transform s2 e = Some tr \<and> is_double_vector (position tr) \<and>
              (\<forall>w. waypoint_at (c\<lparr>isActive := a, isProcessing := r, speed := v,
                                   indexCur := i, waypoints := ws\<rparr>) = Inr w \<longrightarrow>
                   \<not> arrived (position tr) w) \<and>
              (\<forall>dt\<in>set dts. isFinite (dt * v)) \<longrightarrow>
              Transform (run_ticks dts s2) e = Some tr"
    by blast
  have e: "e = 0" and c0: "c = TargetMovingComponent_schema_default\<lparr>isActive := True, isProcessing := False\<rparr>"
    using cr c
    by (auto simp: Create_def initial_def Create_new_def engine_addEntity_def component_create_def)
  have f1: "isFinite (Fin 0.5 * rnd 1.2)"
    unfolding rnd_1_2 by (rule isFinite_times[of _ _ 10]) (simp_all add: pow2_def)
  have f2: "isFinite (Fin 1 * rnd 1.2)"
    unfolding rnd_1_2 by (rule isFinite_times[of _ _ 10]) (simp_all add: pow2_def)
  have f3: "isFinite (Fin 30 * rnd 1.2)"
    unfolding rnd_1_2 by (rule isFinite_times[of _ _ 10]) (simp_all add: pow2_def)
  have fin: "\<forall>dt\<in>set [Fin 0.5, Fin 1, Fin 30]. isFinite (dt * rnd 1.2)"
    using f1 f2 f3 by (simp only: list.set ball_simps simp_thms)
  have dbl: "is_double_vector \<lparr>x = Fin 11, y = Fin 1, z = Fin 20\<rparr>"
    by (simp add: is_double_vector_def)
  have far: "\<not> arrived \<lparr>x = Fin 11, y = Fin 1, z = Fin 20\<rparr> \<lparr>x = Fin 11, y = Fin 1, z = Fin 16\<rparr>"
    unfolding arrived_exact by simp
  have "Transform (run_ticks [Fin 0.5, Fin 1, Fin 30] demo_target) 0 =
     Some \<lparr>position = \<lparr>x = Fin 11, y = Fin 1, z = Fin 20\<rparr>, scale = Vector3_One\<rparr>"
  proof (rule stuck[unfolded e c0, rule_format, where a = True and r = True and v = "rnd 1.2" and i = 0
          and ws = "[\<lparr>x = Fin 11, y = Fin 1, z = Fin 16\<rparr>, \<lparr>x = Fin 21, y = Fin 1, z = Fin 16\<rparr>]"],
         intro conjI allI impI)
    show "TargetMovingComponent demo_target 0 =
      Some (TargetMovingComponent_schema_default
         \<lparr>isActive := True, isProcessing := False, isActive := True, isProcessing := True,
            speed := rnd 1.2, indexCur := 0,
            waypoints := [\<lparr>x = Fin 11, y = Fin 1, z = Fin 16\<rparr>, \<lparr>x = Fin 21, y = Fin 1, z = Fin 16\<rparr>]\<rparr>)"
      unfolding demo_target_def by simp
    show "Transform demo_target 0 =
      Some \<lparr>position = \<lparr>x = Fin 11, y = Fin 1, z = Fin 20\<rparr>, scale = Vector3_One\<rparr>"
      unfolding demo_target_def by simp
    show "is_double_vector (position \<lparr>position = \<lparr>x = Fin 11, y = Fin 1, z = Fin 20\<rparr>, scale = Vector3_One\<rparr>)"
      using dbl by simp
    show "\<not> arrived (position \<lparr>position = \<lparr>x = Fin 11, y = Fin 1, z = Fin 20\<rparr>, scale = Vector3_One\<rparr>) w"
      if "waypoint_at (TargetMovingComponent_schema_default
         \<lparr>isActive := True, isProcessing := False, isActive := True, isProcessing := True,
            speed := rnd 1.2, indexCur := 0,
            waypoints := [\<lparr>x = Fin 11, y = Fin 1, z = Fin 16\<rparr>, \<lparr>x = Fin 21, y = Fin 1, z = Fin 16\<rparr>]\<rparr>) = Inr w"
      for w
      using that far by (simp add: waypoint_at_def)
    show "\<forall>dt\<in>set [Fin 0.5, Fin 1, Fin 30]. isFinite (dt * rnd 1.2)" by (rule fin)
  qed
  then show ?thesis using ok by simp
qed

text \<open>
  The claim C10 as it is stated, for any elapsed time and any positive speed, fails for
  the target that the demo scene creates at \<open>(11, 1, 20)\<close> when its speed is \<open>2^600\<close> and the
  elapsed time of the tick is \<open>2^600\<close>: the position does not pass the check for
  destination, the product \<open>dt * speed\<close> overflows to infinity, its product with the zero
  direction is NaN, and after the tick every coordinate of the position is NaN.
\<close>

theorem fresh_target_counterexample:
  "Create \<lparr>type = MOVING, pos = \<lparr>x = Fin 11, y = Fin 1, z = Fin 20\<rparr>\<rparr> initial = Inr (0, demo_created) \<and>
   TargetMovingComponent demo_created 0 =
     Some (TargetMovingComponent_schema_default\<lparr>isActive := True, isProcessing := False\<rparr>) \<and>
   TargetMovingComponent overdriven 0 =
     Some (TargetMovingComponent_schema_default
             \<lparr>isActive := True, isProcessing := True, speed := Fin (pow2 600), indexCur := 0,
              waypoints := [\<lparr>x = Fin 11, y = Fin 1, z = Fin 16\<rparr>, \<lparr>x = Fin 21, y = Fin 1, z = Fin 16\<rparr>]\<rparr>) \<and>
   Transform overdriven 0 =
     Some \<lparr>position = \<lparr>x = Fin 11, y = Fin 1, z = Fin 20\<rparr>, scale = Vector3_One\<rparr> \<and>
   is_double (Fin (pow2 600)) \<and> Fin 0 < Fin (pow2 600) \<and>
   \<not> arrived \<lparr>x = Fin 11, y = Fin 1, z = Fin 20\<rparr> \<lparr>x = Fin 11, y = Fin 1, z = Fin 16\<rparr> \<and>
   Fin (pow2 600) * Fin (pow2 600) = PInf \<and>
   fst (MovingTimer (Fin (pow2 600)) overdriven) = None \<and>
   Transform (run_ticks [Fin (pow2 600)] overdriven) 0 =
     Some \<lparr>position = \<lparr>x = NaN, y = NaN, z = NaN\<rparr>, scale = Vector3_One\<rparr>"
proof -
  let ?c = "TargetMovingComponent_schema_default
             \<lparr>isActive := True, isProcessing := True, speed := Fin (pow2 600), indexCur := 0,
              waypoints := [\<lparr>x = Fin 11, y = Fin 1, z = Fin 16\<rparr>, \<lparr>x = Fin 21, y = Fin 1, z = Fin 16\<rparr>]\<rparr>"
  let ?p = "\<lparr>x = Fin 11, y = Fin 1, z = Fin 20\<rparr>"
  have cr: "Create \<lparr>type = MOVING, pos = ?p\<rparr> initial = Inr (0, demo_created)"
    by (simp add: Create_def Create_new_def engine_addEntity_def component_create_def initial_def
        demo_created_def)
  have c0: "TargetMovingComponent demo_created 0 =
     Some (TargetMovingComponent_schema_default\<lparr>isActive := True, isProcessing := False\<rparr>)"
    by (simp add: demo_created_def)
  have c: "TargetMovingComponent overdriven 0 = Some ?c"
    by (simp add: overdriven_def)
  have t: "Transform overdriven 0 = Some \<lparr>position = ?p, scale = Vector3_One\<rparr>"
    by (simp add: overdriven_def demo_created_def)
  have e: "engine_ok overdriven"
    by (auto simp: engine_ok_def overdriven_def demo_created_def)
  have r: "targets_ready overdriven"
    by (auto simp: targets_ready_def overdriven_def demo_created_def
        TargetMovingComponent_schema_default_def split: if_splits)
  have far: "\<not> arrived ?p \<lparr>x = Fin 11, y = Fin 1, z = Fin 16\<rparr>"
    unfolding arrived_exact by simp
  have over: "Fin (pow2 600) * Fin (pow2 600) = PInf"
    by (simp add: rnd_pow2_600_squared)
  have pos: "Fin 0 < Fin (pow2 600)" by simp
  have mv: "MovingTimer_move (Fin (pow2 600)) ?c ?p = Inr (?c, \<lparr>x = NaN, y = NaN, z = NaN\<rparr>)"
    using far
    by (simp add: MovingTimer_move_def waypoint_at_def translate_def rnd_pow2_600_squared
        TargetMovingComponent_schema_default_def Vector3_Zero_def)
  have a: "isActive ?c" "isProcessing ?c" by simp_all
  from MovingTimer_tick[OF e r c a, of "Fin (pow2 600)"] t mv
  have tick: "fst (MovingTimer (Fin (pow2 600)) overdriven) = None \<and>
        Transform (snd (MovingTimer (Fin (pow2 600)) overdriven)) 0 =
          Some \<lparr>position = \<lparr>x = NaN, y = NaN, z = NaN\<rparr>, scale = Vector3_One\<rparr>"
    by auto
  then have run: "Transform (run_ticks [Fin (pow2 600)] overdriven) 0 =
          Some \<lparr>position = \<lparr>x = NaN, y = NaN, z = NaN\<rparr>, scale = Vector3_One\<rparr>"
    by simp
  show ?thesis using cr c0 c t is_double_pow2_600 pos far over tick run by (simp only: simp_thms)
qed

end
